theory Spec2Isabelle
  imports Main
begin

section \<open>The host scene\<close>

text \<open>
  The script \<^verbatim>\<open>blender_auto_render.py\<close> drives a host application through its scripting
  interface. The host state the script reads and writes is made explicit here:
  the object registry (\<^verbatim>\<open>bpy.data.objects\<close>), the scene's frame settings, the render
  output path, the directory of the scene file and the directories that exist on disk.
  Every write to the host, every render, every printed line and every directory
  creation is also appended to a log, in the order the script performs it.
\<close>

datatype error = AttributeError | KeyError | TypeError | ValueError | UnboundLocalError

text \<open>
  An object's \<^verbatim>\<open>animation_data.nla_tracks\<close> is an ordered collection of tracks, each
  with a name and a mute flag. An object without animation data has
  \<^verbatim>\<open>animation_data = None\<close>.
\<close>

type_synonym nla_tracks = "(string \<times> bool) list"

record scene_object =
  hide_render :: bool
  hide_viewport :: bool
  animation_data :: "nla_tracks option"

datatype event =
    FrameSet int
  | SetMute string string bool
  | SetHideRender string bool
  | SetHideViewport string bool
  | SetFilepath string
  | SetFrameEnd int
  | Render int string "string \<rightharpoonup> scene_object"
  | Print string
  | MakeDirs string

text \<open>
  \<open>SetMute x n v\<close> is the assignment \<^verbatim>\<open>track.mute = v\<close> on the track named \<open>n\<close> of
  object \<open>x\<close>. \<open>Render f p obs\<close> is one call of \<^verbatim>\<open>bpy.ops.render.render(write_still=True)\<close>,
  with the scene's current frame, the render output path and the object registry
  as they are at the moment of the call.
\<close>

record world =
  objects :: "string \<rightharpoonup> scene_object"
  frame_current :: int
  frame_start :: int
  frame_end :: int
  render_filepath :: string
  blend_dir :: string
  dirs :: "string set"
  log :: "event list"

text \<open>
  A procedure of the script returns no value; it either returns normally or raises.
  A raise leaves the host as mutated so far, so the world is returned in both cases.
\<close>

type_synonym proc = "world \<Rightarrow> error option \<times> world"

definition seq :: "proc \<Rightarrow> proc \<Rightarrow> proc" where
  "seq f g w = (case f w of (None, w') \<Rightarrow> g w' | (Some e, w') \<Rightarrow> (Some e, w'))"

fun for_each :: "('a \<Rightarrow> proc) \<Rightarrow> 'a list \<Rightarrow> proc" where
  "for_each body [] w = (None, w)"
| "for_each body (x # xs) w =
     (case body x w of (None, w') \<Rightarrow> for_each body xs w' | (Some e, w') \<Rightarrow> (Some e, w'))"

definition emit :: "event list \<Rightarrow> world \<Rightarrow> world" where
  "emit evs w = w\<lparr>log := log w @ evs\<rparr>"

subsection \<open>Host operations\<close>

text \<open>\<^verbatim>\<open>bpy.context.scene.frame_set(f)\<close>\<close>

definition frame_set :: "int \<Rightarrow> proc" where
  "frame_set f w = (None, emit [FrameSet f] (w\<lparr>frame_current := f\<rparr>))"

text \<open>\<^verbatim>\<open>bpy.context.scene.render.filepath = p\<close>\<close>

definition set_filepath :: "string \<Rightarrow> proc" where
  "set_filepath p w = (None, emit [SetFilepath p] (w\<lparr>render_filepath := p\<rparr>))"

text \<open>\<^verbatim>\<open>bpy.ops.render.render(write_still=True)\<close>\<close>

definition render :: proc where
  "render w = (None, emit [Render (frame_current w) (render_filepath w) (objects w)] w)"

text \<open>
  \<^verbatim>\<open>bpy.data.objects.get(x).animation_data.nla_tracks\<close>: \<^verbatim>\<open>get\<close> returns \<^verbatim>\<open>None\<close> for
  an unknown name, and an attribute access on \<^verbatim>\<open>None\<close> raises \<^verbatim>\<open>AttributeError\<close>.
\<close>

definition get_tracks :: "string \<Rightarrow> world \<Rightarrow> error + nla_tracks" where
  "get_tracks x w =
     (case objects w x of
        None \<Rightarrow> Inl AttributeError
      | Some ob \<Rightarrow>
          (case animation_data ob of None \<Rightarrow> Inl AttributeError | Some ts \<Rightarrow> Inr ts))"

definition put_tracks :: "string \<Rightarrow> nla_tracks \<Rightarrow> world \<Rightarrow> world" where
  "put_tracks x ts w =
     (case objects w x of
        None \<Rightarrow> w
      | Some ob \<Rightarrow> w\<lparr>objects := (objects w)(x \<mapsto> ob\<lparr>animation_data := Some ts\<rparr>)\<rparr>)"

text \<open>
  \<^verbatim>\<open>nla_tracks[n].mute = v\<close>: a collection indexed by a string yields its first member
  of that name and raises \<^verbatim>\<open>KeyError\<close> when there is none.
\<close>

fun set_first :: "string \<Rightarrow> bool \<Rightarrow> nla_tracks \<Rightarrow> nla_tracks option" where
  "set_first n v [] = None"
| "set_first n v ((m, b) # ts) =
     (if m = n then Some ((m, v) # ts)
      else (case set_first n v ts of None \<Rightarrow> None | Some ts' \<Rightarrow> Some ((m, b) # ts')))"

fun track_mute :: "string \<Rightarrow> nla_tracks \<Rightarrow> bool option" where
  "track_mute n [] = None"
| "track_mute n ((m, b) # ts) = (if m = n then Some b else track_mute n ts)"

definition set_track_mute :: "string \<Rightarrow> string \<Rightarrow> bool \<Rightarrow> proc" where
  "set_track_mute x n v w =
     (case get_tracks x w of
        Inl e \<Rightarrow> (Some e, w)
      | Inr ts \<Rightarrow>
          (case set_first n v ts of
             None \<Rightarrow> (Some KeyError, w)
           | Some ts' \<Rightarrow> (None, emit [SetMute x n v] (put_tracks x ts' w))))"

section \<open>The script\<close>

subsection \<open>\<^verbatim>\<open>mute_tracks\<close>\<close>

text \<open>
  \<^verbatim>\<open>for track in tracks: track.mute = mute\<close>. The argument is always the track
  collection of one object; \<open>mute_all\<close> is the loop over that collection and
  \<open>mute_tracks x\<close> applies it to the collection of object \<open>x\<close>.
\<close>

fun mute_all :: "bool \<Rightarrow> nla_tracks \<Rightarrow> nla_tracks" where
  "mute_all v [] = []"
| "mute_all v ((n, b) # ts) = (n, v) # mute_all v ts"

definition mute_tracks :: "string \<Rightarrow> bool \<Rightarrow> proc" where
  "mute_tracks x v w =
     (case get_tracks x w of
        Inl e \<Rightarrow> (Some e, w)
      | Inr ts \<Rightarrow>
          (None, emit (map (\<lambda>t. SetMute x (fst t) v) ts) (put_tracks x (mute_all v ts) w)))"

subsection \<open>\<^verbatim>\<open>render_frame\<close>\<close>

definition render_frame :: "int \<Rightarrow> string \<Rightarrow> proc" where
  "render_frame frame fp = seq (frame_set frame) (seq (set_filepath fp) render)"

subsection \<open>\<^verbatim>\<open>mute_and_unmute\<close>\<close>

text \<open>
  An entry of \<^verbatim>\<open>tracks_to_mute\<close> or \<^verbatim>\<open>tracks_to_unmute\<close> is compared with \<^verbatim>\<open>0\<close> before it
  is iterated: it is either an integer or a list of track names. Iterating an integer
  other than \<^verbatim>\<open>0\<close> raises \<^verbatim>\<open>TypeError\<close>.
\<close>

datatype tracks_arg = PyInt int | PyList "string list"

fun zip3 :: "'a list \<Rightarrow> 'b list \<Rightarrow> 'c list \<Rightarrow> ('a \<times> 'b \<times> 'c) list" where
  "zip3 (a # as) (b # bs) (c # cs) = (a, b, c) # zip3 as bs cs"
| "zip3 _ _ _ = []"

definition set_each :: "string \<Rightarrow> tracks_arg \<Rightarrow> bool \<Rightarrow> proc" where
  "set_each x arg v =
     (case arg of
        PyInt i \<Rightarrow> (if i \<noteq> 0 then (\<lambda>w. (Some TypeError, w)) else (\<lambda>w. (None, w)))
      | PyList ys \<Rightarrow> for_each (\<lambda>y. set_track_mute x y v) ys)"

definition mute_and_unmute_entry :: "string \<times> tracks_arg \<times> tracks_arg \<Rightarrow> proc" where
  "mute_and_unmute_entry e =
     (case e of (x, m, u) \<Rightarrow> seq (set_each x m True) (set_each x u False))"

definition mute_and_unmute :: "string list \<Rightarrow> tracks_arg list \<Rightarrow> tracks_arg list \<Rightarrow> proc" where
  "mute_and_unmute objs tracks_to_mute tracks_to_unmute =
     for_each mute_and_unmute_entry (zip3 objs tracks_to_mute tracks_to_unmute)"

subsection \<open>Strings and ranges of the language\<close>

text \<open>\<^verbatim>\<open>str(i)\<close> for an integer: its decimal digits, with a leading \<^verbatim>\<open>-\<close> when negative.\<close>

definition digit_char :: "nat \<Rightarrow> char" where
  "digit_char d = ''0123456789'' ! d"

function str_nat :: "nat \<Rightarrow> string" where
  "str_nat n = (if n < 10 then [digit_char n] else str_nat (n div 10) @ [digit_char (n mod 10)])"
  by pat_completeness auto
termination
  by (relation "measure id") auto

definition str :: "int \<Rightarrow> string" where
  "str i = (if i < 0 then CHR ''-'' # str_nat (nat (- i)) else str_nat (nat i))"

text \<open>
  \<^verbatim>\<open>s.zfill(width)\<close>: a string already \<open>width\<close> long or longer is returned as it is;
  otherwise zeros are inserted on the left, after a leading sign if there is one.
\<close>

definition zfill :: "nat \<Rightarrow> string \<Rightarrow> string" where
  "zfill width s =
     (if width \<le> length s then s
      else (case s of
              c # rest \<Rightarrow>
                (if c = CHR ''+'' \<or> c = CHR ''-''
                 then c # replicate (width - length s) CHR ''0'' @ rest
                 else replicate (width - length s) CHR ''0'' @ s)
            | [] \<Rightarrow> replicate width CHR ''0''))"

text \<open>
  \<^verbatim>\<open>range(start, stop, step)\<close>: ascending for a positive step, descending for a negative
  one, \<^verbatim>\<open>ValueError\<close> for step \<^verbatim>\<open>0\<close>.
\<close>

function range_up :: "int \<Rightarrow> int \<Rightarrow> int \<Rightarrow> int list" where
  "range_up i stop step = (if 0 < step \<and> i < stop then i # range_up (i + step) stop step else [])"
  by pat_completeness auto
termination
  by (relation "measure (\<lambda>(i, stop, step). nat (stop - i))") auto

function range_down :: "int \<Rightarrow> int \<Rightarrow> int \<Rightarrow> int list" where
  "range_down i stop step =
     (if step < 0 \<and> stop < i then i # range_down (i + step) stop step else [])"
  by pat_completeness auto
termination
  by (relation "measure (\<lambda>(i, stop, step). nat (i - stop))") auto

definition py_range :: "int \<Rightarrow> int \<Rightarrow> int \<Rightarrow> error + int list" where
  "py_range start stop step =
     (if step = 0 then Inl ValueError
      else if 0 < step then Inr (range_up start stop step)
      else Inr (range_down start stop step))"

text \<open>\<^verbatim>\<open>os.path.join(a, b)\<close> and \<^verbatim>\<open>os.sep\<close> on a POSIX host.\<close>

definition os_sep :: string where
  "os_sep = ''/''"

definition os_path_join :: "string \<Rightarrow> string \<Rightarrow> string" where
  "os_path_join a b =
     (if b \<noteq> [] \<and> hd b = CHR ''/'' then b
      else if a = [] \<or> last a = CHR ''/'' then a @ b
      else a @ ''/'' @ b)"

subsection \<open>\<^verbatim>\<open>write_animations2\<close>\<close>

text \<open>
  The name of the file written for a frame. The default values of \<^verbatim>\<open>start_frame\<close> and
  \<^verbatim>\<open>end_frame\<close> are read from the scene when the function is defined; every call in
  the script passes both.
\<close>

definition frame_filename :: "string \<Rightarrow> int \<Rightarrow> string" where
  "frame_filename output_path frame = output_path @ ''_'' @ zfill 3 (str frame) @ ''.png''"

definition write_animations2 :: "string \<Rightarrow> int \<Rightarrow> int \<Rightarrow> int \<Rightarrow> proc" where
  "write_animations2 output_path step start_frame end_frame w =
     (case py_range start_frame (end_frame + 1) step of
        Inl e \<Rightarrow> (Some e, w)
      | Inr frames \<Rightarrow>
          for_each (\<lambda>frame. render_frame frame (frame_filename output_path frame)) frames w)"

subsection \<open>\<^verbatim>\<open>reset_tracks\<close>\<close>

definition reset_tracks_body :: "string \<Rightarrow> proc" where
  "reset_tracks_body x =
     seq (frame_set 1)
    (seq (mute_tracks x True)
    (seq (set_track_mute x ''reset'' False)
    (seq (set_track_mute x ''reset'' True)
    (seq (mute_tracks x True)
    (seq (set_track_mute x ''reset'' False)
    (seq (frame_set 1)
         (set_track_mute x ''reset'' True)))))))"

definition reset_tracks :: "string list \<Rightarrow> proc" where
  "reset_tracks obj = for_each reset_tracks_body obj"

subsection \<open>\<^verbatim>\<open>hide_objects\<close>\<close>

definition hide_object :: "bool \<Rightarrow> string \<Rightarrow> proc" where
  "hide_object true_or_false x w =
     (case objects w x of
        None \<Rightarrow> (Some AttributeError, w)
      | Some obj2 \<Rightarrow>
          (None,
           emit [SetHideRender x true_or_false, SetHideViewport x true_or_false]
             (w\<lparr>objects := (objects w)
                  (x \<mapsto> obj2\<lparr>hide_render := true_or_false, hide_viewport := true_or_false\<rparr>)\<rparr>)))"

definition hide_objects :: "string list \<Rightarrow> bool \<Rightarrow> proc" where
  "hide_objects objs true_or_false = for_each (hide_object true_or_false) objs"

subsection \<open>\<^verbatim>\<open>run_case\<close>\<close>

text \<open>\<^verbatim>\<open>print(s)\<close>\<close>

definition print_line :: "string \<Rightarrow> proc" where
  "print_line s w = (None, emit [Print s] w)"

text \<open>\<^verbatim>\<open>if not os.path.exists(p): os.makedirs(p)\<close>\<close>

definition ensure_dir :: "string \<Rightarrow> proc" where
  "ensure_dir p w =
     (if p \<in> dirs w then (None, w) else (None, emit [MakeDirs p] (w\<lparr>dirs := insert p (dirs w)\<rparr>)))"

text \<open>
  The \<^verbatim>\<open>match\<close> statement. The local variable \<^verbatim>\<open>objects\<close> is bound by the
  \<^verbatim>\<open>"squirrel"\<close> case only: its value after the statement is \<open>None\<close> when it is
  still unbound.
\<close>

definition case_selector :: "string \<Rightarrow> world \<Rightarrow> string list option \<times> world" where
  "case_selector animal_name w =
     (if animal_name = ''squirrel''
      then (Some [''rig''], emit [SetFrameEnd 160] (w\<lparr>frame_end := 160\<rparr>))
      else (None, emit [Print (''Animal '' @ animal_name @ '' not supported!'')] w))"

text \<open>
  The body of the loop over \<^verbatim>\<open>animation_list\<close>. Reading the unbound local
  \<^verbatim>\<open>objects\<close> raises \<^verbatim>\<open>UnboundLocalError\<close>.
\<close>

definition run_animation ::
  "string \<Rightarrow> string \<Rightarrow> string list option \<Rightarrow> string list \<Rightarrow> int \<Rightarrow> string \<Rightarrow> proc" where
  "run_animation animal_name base_path objs mute_rig start_frame anim w =
     (let end_frame = frame_end w;
          step = 2;
          unmute_rig = [anim, ''Rotation'']
      in seq (hide_objects [''ShadowPlane''] False)
          (case objs of
             None \<Rightarrow> (\<lambda>w'. (Some UnboundLocalError, w'))
           | Some obs \<Rightarrow>
               seq (reset_tracks obs)
              (seq (mute_and_unmute obs [PyList mute_rig] [PyList unmute_rig])
                 (let output_path = os_path_join (base_path @ animal_name) anim
                  in seq (ensure_dir output_path)
                       (write_animations2 (os_path_join output_path anim) step
                          start_frame end_frame)))) w)"

definition animation_list :: "string list" where
  "animation_list = [''Idle1'', ''Walk'']"

definition run_case :: "string \<Rightarrow> proc" where
  "run_case animal_name w =
     (let base_path = os_path_join (blend_dir w) ''renders'' @ os_sep
      in case seq (hide_objects [''visibleground''] True) (hide_objects [''ShadowPlane''] False) w of
           (Some e, w1) \<Rightarrow> (Some e, w1)
         | (None, w1) \<Rightarrow>
             (let mute_rig = [];
                  start_frame = 1
              in case case_selector animal_name w1 of
                   (objs, w2) \<Rightarrow>
                     for_each (run_animation animal_name base_path objs mute_rig start_frame)
                       animation_list w2))"

section \<open>Observing a run\<close>

text \<open>
  The render calls in a log, each with the frame, the output path and the object
  registry seen by the renderer; and the events a procedure appended to the log.
\<close>

fun renders :: "event list \<Rightarrow> (int \<times> string \<times> (string \<rightharpoonup> scene_object)) list" where
  "renders [] = []"
| "renders (Render f p obs # evs) = (f, p, obs) # renders evs"
| "renders (_ # evs) = renders evs"

definition new_events :: "world \<Rightarrow> world \<Rightarrow> event list" where
  "new_events w w' = drop (length (log w)) (log w')"

text \<open>The events of one call of \<open>render_frame\<close>.\<close>

definition frame_events :: "(string \<rightharpoonup> scene_object) \<Rightarrow> string \<Rightarrow> int \<Rightarrow> event list" where
  "frame_events obs output_path f =
     [FrameSet f, SetFilepath (frame_filename output_path f),
      Render f (frame_filename output_path f) obs]"

text \<open>A scene with the objects the script names, used to instantiate the theorems.\<close>

definition demo_world :: world where
  "demo_world =
     \<lparr>objects =
        [''visibleground'' \<mapsto> \<lparr>hide_render = False, hide_viewport = False, animation_data = None\<rparr>,
         ''ShadowPlane'' \<mapsto> \<lparr>hide_render = True, hide_viewport = True, animation_data = None\<rparr>,
         ''rig'' \<mapsto> \<lparr>hide_render = False, hide_viewport = False,
            animation_data = Some [(''Idle1'', False), (''reset'', False), (''Walk'', False),
                                   (''Rotation'', True)]\<rparr>],
      frame_current = 7, frame_start = 1, frame_end = 250, render_filepath = ''/tmp/'',
      blend_dir = ''/home/user/squirrel/'', dirs = {}, log = []\<rparr>"


text \<open>
  The names of the tracks of an object, the mute flag of its first track of a given
  name (the one \<^verbatim>\<open>nla_tracks[n]\<close> denotes), and whether all its tracks are muted.
\<close>

definition track_names :: "string \<Rightarrow> world \<Rightarrow> string list" where
  "track_names x w = (case get_tracks x w of Inl e \<Rightarrow> [] | Inr ts \<Rightarrow> map fst ts)"

definition has_track :: "string \<Rightarrow> string \<Rightarrow> world \<Rightarrow> bool" where
  "has_track x n w = (n \<in> set (track_names x w))"

definition track_state :: "string \<Rightarrow> string \<Rightarrow> world \<Rightarrow> bool option" where
  "track_state x n w = (case get_tracks x w of Inl e \<Rightarrow> None | Inr ts \<Rightarrow> track_mute n ts)"

definition all_muted :: "string \<Rightarrow> world \<Rightarrow> bool" where
  "all_muted x w = (case get_tracks x w of Inl e \<Rightarrow> False | Inr ts \<Rightarrow> list_all snd ts)"

definition settled :: "string \<Rightarrow> world \<Rightarrow> bool" where
  "settled x w = (all_muted x w \<and> has_track x ''reset'' w)"

text \<open>
  The events of one iteration of \<open>reset_tracks\<close> on object \<open>x\<close> whose tracks are
  named \<open>names\<close>, read off the eight statements of the loop body.
\<close>

definition reset_events :: "string \<Rightarrow> string list \<Rightarrow> event list" where
  "reset_events x names =
     [FrameSet 1] @ map (\<lambda>n. SetMute x n True) names @
     [SetMute x ''reset'' False, SetMute x ''reset'' True] @
     map (\<lambda>n. SetMute x n True) names @
     [SetMute x ''reset'' False, FrameSet 1, SetMute x ''reset'' True]"

text \<open>
  The sequence as the specification words it: mute all, unmute \<^verbatim>\<open>reset\<close>, mute all,
  unmute \<^verbatim>\<open>reset\<close>, set the frame to 1, mute \<^verbatim>\<open>reset\<close>.
\<close>

definition spec_reset_events :: "string \<Rightarrow> string list \<Rightarrow> event list" where
  "spec_reset_events x names =
     map (\<lambda>n. SetMute x n True) names @ [SetMute x ''reset'' False] @
     map (\<lambda>n. SetMute x n True) names @
     [SetMute x ''reset'' False, FrameSet 1, SetMute x ''reset'' True]"

text \<open>An object with both hidden flags set to \<open>b\<close>, as \<open>hide_object\<close> leaves it.\<close>

definition hidden :: "bool \<Rightarrow> scene_object \<Rightarrow> scene_object" where
  "hidden b ob = ob\<lparr>hide_render := b, hide_viewport := b\<rparr>"

text \<open>
  The track names an argument of \<open>mute_and_unmute\<close> iterates over, and the events of
  one entry of the zip: the mute pass, then the unmute pass.
\<close>

definition arg_names :: "tracks_arg \<Rightarrow> string list" where
  "arg_names arg = (case arg of PyInt i \<Rightarrow> [] | PyList ys \<Rightarrow> ys)"

definition entry_events :: "string \<times> tracks_arg \<times> tracks_arg \<Rightarrow> event list" where
  "entry_events e =
     (case e of (x, m, u) \<Rightarrow>
        map (\<lambda>y. SetMute x y True) (arg_names m) @ map (\<lambda>z. SetMute x z False) (arg_names u))"

text \<open>The names of the tracks of object \<open>x\<close> that are not muted, in a given registry.\<close>

definition unmuted_names :: "string \<Rightarrow> (string \<rightharpoonup> scene_object) \<Rightarrow> string list" where
  "unmuted_names x obs =
     (case obs x of
        None \<Rightarrow> []
      | Some ob \<Rightarrow>
          (case animation_data ob of
             None \<Rightarrow> []
           | Some ts \<Rightarrow> map fst (filter (\<lambda>t. \<not> snd t) ts)))"

text \<open>
  The hidden flags of the objects, and the part of the world that neither
  \<open>reset_tracks\<close> nor \<open>mute_and_unmute\<close> writes.
\<close>

definition visibility :: "world \<Rightarrow> string \<Rightarrow> (bool \<times> bool) option" where
  "visibility w x = map_option (\<lambda>ob. (hide_render ob, hide_viewport ob)) (objects w x)"

definition surroundings ::
  "world \<Rightarrow> int \<times> string \<times> string set \<times> (string \<Rightarrow> (bool \<times> bool) option)" where
  "surroundings w = (frame_end w, blend_dir w, dirs w, visibility w)"

text \<open>
  The order of two strings as the language compares them: by code point, position by
  position, a proper prefix first.
\<close>

fun str_less :: "string \<Rightarrow> string \<Rightarrow> bool" where
  "str_less [] [] = False"
| "str_less [] (y # ys) = True"
| "str_less (x # xs) [] = False"
| "str_less (x # xs) (y # ys) =
     ((of_char x :: nat) < of_char y \<or> (x = y \<and> str_less xs ys))"

text \<open>
  An event list with no render and no directory creation; a procedure that only ever
  appends such events to the log, whether it returns or raises.
\<close>

fun silent :: "event list \<Rightarrow> bool" where
  "silent [] = True"
| "silent (Render f p obs # evs) = False"
| "silent (MakeDirs p # evs) = False"
| "silent (e # evs) = silent evs"

definition quiet :: "proc \<Rightarrow> bool" where
  "quiet f = (\<forall>w. \<exists>evs. log (snd (f w)) = log w @ evs \<and> silent evs)"

text \<open>
  The hidden flags of an object in a registry, and a world with both flags of object
  \<open>x\<close> set to \<open>b\<close> (unchanged when \<open>x\<close> does not resolve).
\<close>

definition hidden_flags :: "(string \<rightharpoonup> scene_object) \<Rightarrow> string \<Rightarrow> (bool \<times> bool) option" where
  "hidden_flags obs x = map_option (\<lambda>ob. (hide_render ob, hide_viewport ob)) (obs x)"

definition set_hidden :: "string \<Rightarrow> bool \<Rightarrow> world \<Rightarrow> world" where
  "set_hidden x b w =
     (case objects w x of
        None \<Rightarrow> w
      | Some ob \<Rightarrow> w\<lparr>objects := (objects w)(x \<mapsto> hidden b ob)\<rparr>)"

text \<open>
  The two statements of \<open>run_case\<close> that precede the \<^verbatim>\<open>match\<close> (lines 75 and 76), the
  value of \<^verbatim>\<open>base_path\<close>, and the path prefix that \<open>run_animation\<close> passes to
  \<open>write_animations2\<close>.
\<close>

definition before_dispatch :: proc where
  "before_dispatch =
     seq (hide_objects [''visibleground''] True) (hide_objects [''ShadowPlane''] False)"

definition base_path_of :: "world \<Rightarrow> string" where
  "base_path_of w = os_path_join (blend_dir w) ''renders'' @ os_sep"

definition anim_prefix :: "string \<Rightarrow> string \<Rightarrow> string \<Rightarrow> string" where
  "anim_prefix base_path animal_name anim =
     os_path_join (os_path_join (base_path @ animal_name) anim) anim"

text \<open>
  A render of animation \<open>a\<close>: its path is the file name of its frame under the
  prefix, and no track of \<^verbatim>\<open>rig\<close> is unmuted but those named \<open>a\<close> or \<^verbatim>\<open>Rotation\<close>.
\<close>

definition render_of :: "string \<Rightarrow> string \<Rightarrow> int \<times> string \<times> (string \<rightharpoonup> scene_object) \<Rightarrow> bool" where
  "render_of pfx a r =
     (fst (snd r) = frame_filename pfx (fst r) \<and>
      set (unmuted_names ''rig'' (snd (snd r))) \<subseteq> {a, ''Rotation''})"

text \<open>The render calls of one run of \<open>run_case\<close>, in order.\<close>

definition run_renders :: "string \<Rightarrow> world \<Rightarrow> (int \<times> string \<times> (string \<rightharpoonup> scene_object)) list" where
  "run_renders animal_name w = renders (new_events w (snd (run_case animal_name w)))"

section \<open>Basic facts\<close>

lemma renders_append: "renders (xs @ ys) = renders xs @ renders ys"
  by (induction xs rule: renders.induct) simp_all

lemma emit_simps:
  "log (emit evs w) = log w @ evs"
  "objects (emit evs w) = objects w"
  "frame_current (emit evs w) = frame_current w"
  "frame_start (emit evs w) = frame_start w"
  "frame_end (emit evs w) = frame_end w"
  "render_filepath (emit evs w) = render_filepath w"
  "blend_dir (emit evs w) = blend_dir w"
  "dirs (emit evs w) = dirs w"
  by (simp_all add: emit_def)

lemma new_events_append: "log w' = log w @ evs \<Longrightarrow> new_events w w' = evs"
  by (simp add: new_events_def)

subsection \<open>The frame loop\<close>

lemma render_frame_eq:
  "render_frame f p w =
     (None, w\<lparr>frame_current := f, render_filepath := p,
              log := log w @ [FrameSet f, SetFilepath p, Render f p (objects w)]\<rparr>)"
  by (simp add: render_frame_def seq_def frame_set_def set_filepath_def render_def emit_def)

lemma for_each_render_frame:
  "for_each (\<lambda>f. render_frame f (frame_filename p f)) fs w = (e, w') \<Longrightarrow>
     e = None \<and> objects w' = objects w \<and> frame_end w' = frame_end w \<and> dirs w' = dirs w \<and>
     blend_dir w' = blend_dir w \<and>
     log w' = log w @ concat (map (frame_events (objects w) p) fs)"
proof (induction fs arbitrary: w)
  case Nil
  then show ?case by auto
next
  case (Cons f fs)
  let ?w1 = "w\<lparr>frame_current := f, render_filepath := frame_filename p f,
              log := log w @ [FrameSet f, SetFilepath (frame_filename p f),
                              Render f (frame_filename p f) (objects w)]\<rparr>"
  have b: "render_frame f (frame_filename p f) w = (None, ?w1)"
    by (simp add: render_frame_eq)
  from Cons.prems have "for_each (\<lambda>f. render_frame f (frame_filename p f)) fs ?w1 = (e, w')"
    using b by simp
  from Cons.IH [OF this] show ?case by (simp add: frame_events_def)
qed

lemma renders_frame_events:
  "renders (concat (map (frame_events obs p) fs)) = map (\<lambda>f. (f, frame_filename p f, obs)) fs"
  by (induction fs) (simp_all add: frame_events_def)

text \<open>
  The recursive equations of \<open>str_nat\<close>, \<open>range_up\<close> and \<open>range_down\<close> are applied
  by hand: one unfolding at a time.
\<close>

declare str_nat.simps [simp del] range_up.simps [simp del] range_down.simps [simp del]

lemma range_up_Cons:
  "0 < step \<Longrightarrow> i < stop \<Longrightarrow> range_up i stop step = i # range_up (i + step) stop step"
  by (subst range_up.simps) simp

lemma range_up_Nil: "\<not> (0 < step \<and> i < stop) \<Longrightarrow> range_up i stop step = []"
  by (subst range_up.simps) simp


lemma write_animations2_up:
  assumes "0 < step"
  shows "fst (write_animations2 p step s e w) = None"
    and "objects (snd (write_animations2 p step s e w)) = objects w"
    and "log (snd (write_animations2 p step s e w)) =
           log w @ concat (map (frame_events (objects w) p) (range_up s (e + 1) step))"
proof -
  obtain r w' where r: "write_animations2 p step s e w = (r, w')"
    by (cases "write_animations2 p step s e w")
  from assms have "py_range s (e + 1) step = Inr (range_up s (e + 1) step)"
    by (simp add: py_range_def)
  with r have "for_each (\<lambda>f. render_frame f (frame_filename p f)) (range_up s (e + 1) step) w = (r, w')"
    by (simp add: write_animations2_def)
  from for_each_render_frame [OF this] r
  show "fst (write_animations2 p step s e w) = None"
    and "objects (snd (write_animations2 p step s e w)) = objects w"
    and "log (snd (write_animations2 p step s e w)) =
           log w @ concat (map (frame_events (objects w) p) (range_up s (e + 1) step))"
    by simp_all
qed


subsection \<open>Track collections\<close>

lemma mute_all_map: "mute_all v ts = map (\<lambda>t. (fst t, v)) ts"
  by (induction v ts rule: mute_all.induct) simp_all

lemma set_first_names: "set_first n v ts = Some ts' \<Longrightarrow> map fst ts' = map fst ts"
  by (induction n v ts arbitrary: ts' rule: set_first.induct)
     (auto split: if_splits option.splits)

lemma set_first_None_iff: "set_first n v ts = None \<longleftrightarrow> n \<notin> set (map fst ts)"
  by (induction n v ts rule: set_first.induct) (auto split: option.splits)

lemma track_mute_set_first:
  "set_first n v ts = Some ts' \<Longrightarrow> track_mute m ts' = (if m = n then Some v else track_mute m ts)"
  by (induction n v ts arbitrary: ts' rule: set_first.induct)
     (auto split: if_splits option.splits)

lemma set_first_twice:
  "set_first n a ts = Some t1 \<Longrightarrow> set_first n b t1 = set_first n b ts"
  by (induction n a ts arbitrary: t1 rule: set_first.induct)
     (auto split: if_splits option.splits)

lemma set_first_mute_all:
  "n \<in> set (map fst ts) \<Longrightarrow> set_first n v (mute_all v ts) = Some (mute_all v ts)"
proof (induction ts)
  case Nil
  then show ?case by simp
next
  case (Cons t ts)
  obtain m b where t: "t = (m, b)" by (cases t)
  show ?case
  proof (cases "m = n")
    case True
    then show ?thesis by (simp add: t)
  next
    case False
    with Cons.prems have "n \<in> set (map fst ts)" by (simp add: t)
    from Cons.IH [OF this] False show ?thesis by (simp add: t)
  qed
qed

lemma mute_all_idem: "mute_all v (mute_all u ts) = mute_all v ts"
  by (simp add: mute_all_map)

lemma list_all_mute_all: "list_all snd (mute_all True ts)"
  by (simp add: mute_all_map list_all_iff)

subsection \<open>Reading and writing the tracks of an object\<close>

lemma get_tracks_emit [simp]: "get_tracks x (emit evs w) = get_tracks x w"
  by (simp add: get_tracks_def emit_def)

lemma get_tracks_frame_current [simp]: "get_tracks x (w\<lparr>frame_current := f\<rparr>) = get_tracks x w"
  by (simp add: get_tracks_def)

lemma get_tracks_put_same:
  "get_tracks x w = Inr ts \<Longrightarrow> get_tracks x (put_tracks x ts' w) = Inr ts'"
  by (auto simp: get_tracks_def put_tracks_def split: option.splits)

lemma get_tracks_put_other:
  "y \<noteq> x \<Longrightarrow> get_tracks y (put_tracks x ts' w) = get_tracks y w"
  by (auto simp: get_tracks_def put_tracks_def split: option.splits)

lemma put_tracks_simps [simp]:
  "log (put_tracks x ts w) = log w"
  "frame_current (put_tracks x ts w) = frame_current w"
  "frame_end (put_tracks x ts w) = frame_end w"
  "dirs (put_tracks x ts w) = dirs w"
  "blend_dir (put_tracks x ts w) = blend_dir w"
  by (simp_all add: put_tracks_def split: option.splits)

lemma world_normal:
  "emit a (emit b w) = emit (b @ a) w"
  "put_tracks x t (emit evs w) = emit evs (put_tracks x t w)"
  "put_tracks x t (put_tracks x t' w) = put_tracks x t w"
  "(emit evs w)\<lparr>frame_current := f\<rparr> = emit evs (w\<lparr>frame_current := f\<rparr>)"
  "(put_tracks x t w)\<lparr>frame_current := f\<rparr> = put_tracks x t (w\<lparr>frame_current := f\<rparr>)"
proof -
  show "emit a (emit b w) = emit (b @ a) w" by (simp add: emit_def)
  show "put_tracks x t (emit evs w) = emit evs (put_tracks x t w)"
    by (cases "objects w x") (simp_all add: emit_def put_tracks_def)
  show "put_tracks x t (put_tracks x t' w) = put_tracks x t w"
    by (cases "objects w x") (simp_all add: put_tracks_def)
  show "(emit evs w)\<lparr>frame_current := f\<rparr> = emit evs (w\<lparr>frame_current := f\<rparr>)"
    by (simp add: emit_def)
  show "(put_tracks x t w)\<lparr>frame_current := f\<rparr> = put_tracks x t (w\<lparr>frame_current := f\<rparr>)"
    by (cases "objects w x") (simp_all add: put_tracks_def)
qed

text \<open>What one step on the tracks of an object does when it returns.\<close>

lemma mute_tracks_ok:
  "get_tracks x w = Inr ts \<Longrightarrow>
     mute_tracks x v w = (None, emit (map (\<lambda>n. SetMute x n v) (map fst ts)) (put_tracks x (mute_all v ts) w))"
  by (simp add: mute_tracks_def comp_def)

lemma set_track_mute_ok:
  "get_tracks x w = Inr ts \<Longrightarrow> set_first n v ts = Some ts' \<Longrightarrow>
     set_track_mute x n v w = (None, emit [SetMute x n v] (put_tracks x ts' w))"
  by (simp add: set_track_mute_def)

lemma set_track_mute_None:
  "set_track_mute x n v w = (None, w') \<Longrightarrow>
     \<exists>ts ts'. get_tracks x w = Inr ts \<and> set_first n v ts = Some ts' \<and>
       w' = emit [SetMute x n v] (put_tracks x ts' w)"
  by (auto simp: set_track_mute_def split: sum.splits option.splits)

lemma mute_tracks_None:
  "mute_tracks x v w = (None, w') \<Longrightarrow>
     \<exists>ts. get_tracks x w = Inr ts \<and>
       w' = emit (map (\<lambda>n. SetMute x n v) (map fst ts)) (put_tracks x (mute_all v ts) w)"
  by (auto simp: mute_tracks_def comp_def split: sum.splits)

lemma seq_None:
  "seq f g w = (None, w') \<longleftrightarrow> (\<exists>w1. f w = (None, w1) \<and> g w1 = (None, w'))"
  by (auto simp: seq_def split: prod.splits option.splits)

subsection \<open>\<open>reset_tracks\<close>\<close>

lemma reset_tracks_body_ok:
  assumes ts: "get_tracks x w = Inr ts" and r: "''reset'' \<in> set (map fst ts)"
  shows "reset_tracks_body x w =
     (None, emit (reset_events x (map fst ts))
              (put_tracks x (mute_all True ts) (w\<lparr>frame_current := 1\<rparr>)))"
proof -
  let ?M = "mute_all True ts"
  let ?ns = "map fst ts"
  from r have rM: "''reset'' \<in> set (map fst ?M)" by (simp add: mute_all_map comp_def)
  then obtain T1 where T1: "set_first ''reset'' False ?M = Some T1"
    using set_first_None_iff [of "''reset''" False ?M] by auto
  have T2: "set_first ''reset'' True T1 = Some ?M"
    using set_first_twice [OF T1, of True] set_first_mute_all [OF r, of True] by simp
  have nM: "map fst ?M = ?ns" by (simp add: mute_all_map comp_def)
  define w1 where "w1 = emit [FrameSet 1] (w\<lparr>frame_current := 1\<rparr>)"
  define w2 where "w2 = emit (map (\<lambda>n. SetMute x n True) ?ns) (put_tracks x ?M w1)"
  define w3 where "w3 = emit [SetMute x ''reset'' False] (put_tracks x T1 w2)"
  define w4 where "w4 = emit [SetMute x ''reset'' True] (put_tracks x ?M w3)"
  define w5 where "w5 = emit (map (\<lambda>n. SetMute x n True) ?ns) (put_tracks x ?M w4)"
  define w6 where "w6 = emit [SetMute x ''reset'' False] (put_tracks x T1 w5)"
  define w7 where "w7 = emit [FrameSet 1] (w6\<lparr>frame_current := 1\<rparr>)"
  define w8 where "w8 = emit [SetMute x ''reset'' True] (put_tracks x ?M w7)"
  have g1: "get_tracks x w1 = Inr ts" by (simp add: w1_def ts)
  have g2: "get_tracks x w2 = Inr ?M" by (simp add: w2_def get_tracks_put_same [OF g1])
  have g3: "get_tracks x w3 = Inr T1" by (simp add: w3_def get_tracks_put_same [OF g2])
  have g4: "get_tracks x w4 = Inr ?M" by (simp add: w4_def get_tracks_put_same [OF g3])
  have g5: "get_tracks x w5 = Inr ?M" by (simp add: w5_def get_tracks_put_same [OF g4])
  have g6: "get_tracks x w6 = Inr T1" by (simp add: w6_def get_tracks_put_same [OF g5])
  have g7: "get_tracks x w7 = Inr T1" by (simp add: w7_def g6)
  have s1: "frame_set 1 w = (None, w1)" by (simp add: frame_set_def w1_def)
  have s2: "mute_tracks x True w1 = (None, w2)" by (simp add: mute_tracks_ok [OF g1] w2_def)
  have s3: "set_track_mute x ''reset'' False w2 = (None, w3)"
    by (simp add: set_track_mute_ok [OF g2 T1] w3_def)
  have s4: "set_track_mute x ''reset'' True w3 = (None, w4)"
    by (simp add: set_track_mute_ok [OF g3 T2] w4_def)
  have s5: "mute_tracks x True w4 = (None, w5)"
    by (simp add: mute_tracks_ok [OF g4] w5_def nM mute_all_idem)
  have s6: "set_track_mute x ''reset'' False w5 = (None, w6)"
    by (simp add: set_track_mute_ok [OF g5 T1] w6_def)
  have s7: "frame_set 1 w6 = (None, w7)" by (simp add: frame_set_def w7_def)
  have s8: "set_track_mute x ''reset'' True w7 = (None, w8)"
    by (simp add: set_track_mute_ok [OF g7 T2] w8_def)
  have run: "reset_tracks_body x w = (None, w8)"
    by (simp add: reset_tracks_body_def seq_def s1 s2 s3 s4 s5 s6 s7 s8)
  have "w8 = emit (reset_events x ?ns) (put_tracks x ?M (w\<lparr>frame_current := 1\<rparr>))"
    by (simp add: w8_def w7_def w6_def w5_def w4_def w3_def w2_def w1_def reset_events_def
        world_normal)
  with run show ?thesis by simp
qed

lemma track_mute_all_muted:
  "list_all snd ts \<Longrightarrow> n \<in> set (map fst ts) \<Longrightarrow> track_mute n ts = Some True"
  by (induction n ts rule: track_mute.induct) auto

lemma names_mute_all: "map fst (mute_all v ts) = map fst ts"
  by (simp add: mute_all_map comp_def)

lemma reset_tracks_body_None:
  assumes "reset_tracks_body x w = (None, w')"
  shows "\<exists>ts. get_tracks x w = Inr ts \<and> ''reset'' \<in> set (map fst ts)"
proof -
  from assms obtain w1 w2 w3 where
    s1: "frame_set 1 w = (None, w1)" and
    s2: "mute_tracks x True w1 = (None, w2)" and
    s3: "set_track_mute x ''reset'' False w2 = (None, w3)"
    unfolding reset_tracks_body_def seq_None by blast
  from s1 have w1: "w1 = emit [FrameSet 1] (w\<lparr>frame_current := 1\<rparr>)"
    by (simp add: frame_set_def)
  from mute_tracks_None [OF s2] obtain ts where
    g1: "get_tracks x w1 = Inr ts" and
    w2: "w2 = emit (map (\<lambda>n. SetMute x n True) (map fst ts)) (put_tracks x (mute_all True ts) w1)"
    by blast
  have g2: "get_tracks x w2 = Inr (mute_all True ts)"
    by (simp add: w2 get_tracks_put_same [OF g1])
  from set_track_mute_None [OF s3] g2 obtain ts' where
    "set_first ''reset'' False (mute_all True ts) = Some ts'" by auto
  then have "''reset'' \<in> set (map fst (mute_all True ts))"
    using set_first_None_iff [of "''reset''" False "mute_all True ts"] by auto
  then have "''reset'' \<in> set (map fst ts)" by (simp add: mute_all_map comp_def)
  moreover from g1 have "get_tracks x w = Inr ts" by (simp add: w1)
  ultimately show ?thesis by blast
qed

lemma reset_tracks_body_result:
  assumes "reset_tracks_body x w = (None, w')"
  shows "\<exists>ts. get_tracks x w = Inr ts \<and> ''reset'' \<in> set (map fst ts) \<and>
     w' = emit (reset_events x (map fst ts))
            (put_tracks x (mute_all True ts) (w\<lparr>frame_current := 1\<rparr>))"
proof -
  from reset_tracks_body_None [OF assms] obtain ts where
    ts: "get_tracks x w = Inr ts" "''reset'' \<in> set (map fst ts)" by blast
  from reset_tracks_body_ok [OF ts] assms ts show ?thesis by simp
qed

lemma track_names_put:
  "map fst ts' = track_names x w \<Longrightarrow> track_names y (put_tracks x ts' w) = track_names y w"
  by (cases "y = x")
     (auto simp: track_names_def get_tracks_def put_tracks_def split: option.splits sum.splits)

lemma track_names_emit [simp]: "track_names y (emit evs w) = track_names y w"
  by (simp add: track_names_def)

lemma track_names_frame_current [simp]:
  "track_names y (w\<lparr>frame_current := f\<rparr>) = track_names y w"
  by (simp add: track_names_def)

lemma reset_tracks_body_effect:
  assumes "reset_tracks_body x w = (None, w')"
  shows "log w' = log w @ reset_events x (track_names x w)"
    and "frame_current w' = 1"
    and "track_names y w' = track_names y w"
    and "settled x w'"
    and "settled y w \<Longrightarrow> settled y w'"
proof -
  from reset_tracks_body_result [OF assms] obtain ts where
    ts: "get_tracks x w = Inr ts" and r: "''reset'' \<in> set (map fst ts)" and
    w': "w' = emit (reset_events x (map fst ts))
            (put_tracks x (mute_all True ts) (w\<lparr>frame_current := 1\<rparr>))"
    by blast
  have tn: "track_names x w = map fst ts" by (simp add: track_names_def ts)
  show "log w' = log w @ reset_events x (track_names x w)"
    by (simp add: w' tn emit_simps)
  show "frame_current w' = 1" by (simp add: w' emit_simps)
  have nM: "map fst (mute_all True ts) = track_names x (w\<lparr>frame_current := 1\<rparr>)"
    by (simp add: tn mute_all_map comp_def)
  show "track_names y w' = track_names y w"
    by (simp add: w' track_names_put [OF nM])
  have gx: "get_tracks x w' = Inr (mute_all True ts)"
    using ts by (simp add: w' get_tracks_put_same)
  show sx: "settled x w'"
    using r by (simp add: settled_def all_muted_def has_track_def track_names_def gx
        list_all_mute_all names_mute_all)
  show "settled y w'" if "settled y w"
  proof (cases "y = x")
    case True
    with sx show ?thesis by simp
  next
    case False
    then have "get_tracks y w' = get_tracks y w"
      by (simp add: w' get_tracks_put_other)
    with that show ?thesis
      by (simp add: settled_def all_muted_def has_track_def track_names_def)
  qed
qed

lemma for_each_Cons_None:
  "for_each body (x # xs) w = (None, w') \<longleftrightarrow>
     (\<exists>w1. body x w = (None, w1) \<and> for_each body xs w1 = (None, w'))"
  by (auto split: prod.splits option.splits)

lemma reset_tracks_effect:
  "reset_tracks obj w = (None, w') \<Longrightarrow>
     log w' = log w @ concat (map (\<lambda>x. reset_events x (track_names x w)) obj) \<and>
     (obj \<noteq> [] \<longrightarrow> frame_current w' = 1) \<and>
     (\<forall>y. track_names y w' = track_names y w) \<and>
     (\<forall>x \<in> set obj. settled x w') \<and>
     (\<forall>y. settled y w \<longrightarrow> settled y w')"
proof (induction obj arbitrary: w)
  case Nil
  then show ?case by (simp add: reset_tracks_def)
next
  case (Cons x xs)
  from Cons.prems obtain w1 where
    b: "reset_tracks_body x w = (None, w1)" and
    rest: "reset_tracks xs w1 = (None, w')"
    unfolding reset_tracks_def for_each_Cons_None by blast
  note e = reset_tracks_body_effect [OF b]
  note IH = Cons.IH [OF rest]
  have "log w' = log w @ concat (map (\<lambda>x. reset_events x (track_names x w)) (x # xs))"
    using IH e(1) e(3) by simp
  moreover have "frame_current w' = 1"
  proof (cases "xs = []")
    case True
    with rest have "w' = w1" by (simp add: reset_tracks_def)
    with e(2) show ?thesis by simp
  next
    case False
    with IH show ?thesis by simp
  qed
  moreover have "\<forall>y. track_names y w' = track_names y w"
    using IH e(3) by simp
  moreover have "\<forall>y \<in> set (x # xs). settled y w'"
    using IH e(4) by auto
  moreover have "\<forall>y. settled y w \<longrightarrow> settled y w'"
    using IH e(5) by blast
  ultimately show ?case by blast
qed

lemma reset_tracks_returns:
  "\<forall>x \<in> set obj. has_track x ''reset'' w \<Longrightarrow> fst (reset_tracks obj w) = None"
proof (induction obj arbitrary: w)
  case Nil
  then show ?case by (simp add: reset_tracks_def)
next
  case (Cons x xs)
  from Cons.prems have "has_track x ''reset'' w" by simp
  then obtain ts where ts: "get_tracks x w = Inr ts" "''reset'' \<in> set (map fst ts)"
    by (cases "get_tracks x w") (simp_all add: has_track_def track_names_def)
  note b = reset_tracks_body_ok [OF ts]
  let ?w1 = "emit (reset_events x (map fst ts))
              (put_tracks x (mute_all True ts) (w\<lparr>frame_current := 1\<rparr>))"
  have "\<forall>y \<in> set xs. has_track y ''reset'' ?w1"
    using Cons.prems reset_tracks_body_effect(3) [OF b] by (simp add: has_track_def)
  from Cons.IH [OF this] show ?case
    using b by (simp add: reset_tracks_def)
qed


lemma demo_rig_tracks:
  "get_tracks ''rig'' demo_world =
     Inr [(''Idle1'', False), (''reset'', False), (''Walk'', False), (''Rotation'', True)]"
  by (simp add: get_tracks_def demo_world_def)

lemma demo_reset_returns: "fst (reset_tracks [''rig''] demo_world) = None"
  by (rule reset_tracks_returns)
     (simp add: has_track_def track_names_def demo_rig_tracks)



subsection \<open>\<open>hide_objects\<close>\<close>

lemma hide_object_cases:
  "hide_object b x w =
     (case objects w x of
        None \<Rightarrow> (Some AttributeError, w)
      | Some ob \<Rightarrow> (None, emit [SetHideRender x b, SetHideViewport x b]
                        (w\<lparr>objects := (objects w)(x \<mapsto> hidden b ob)\<rparr>)))"
  by (cases "objects w x") (simp_all add: hide_object_def hidden_def)

lemma hidden_idem: "hidden b (hidden b ob) = hidden b ob"
  by (simp add: hidden_def)

text \<open>The names processed before the first one that does not resolve.\<close>

lemma hide_objects_objects:
  "objects (snd (hide_objects xs b w)) =
     (\<lambda>y. if y \<in> set (takeWhile (\<lambda>x. x \<in> dom (objects w)) xs)
          then map_option (hidden b) (objects w y) else objects w y)"
proof (induction xs arbitrary: w)
  case Nil
  show ?case by (simp add: hide_objects_def)
next
  case (Cons x xs)
  show ?case
  proof (cases "objects w x")
    case None
    then show ?thesis by (simp add: hide_objects_def hide_object_cases domIff)
  next
    case (Some ob)
    let ?w1 = "emit [SetHideRender x b, SetHideViewport x b]
                 (w\<lparr>objects := (objects w)(x \<mapsto> hidden b ob)\<rparr>)"
    have step: "hide_objects (x # xs) b w = hide_objects xs b ?w1"
      by (simp add: hide_objects_def hide_object_cases Some)
    have d: "dom (objects ?w1) = dom (objects w)"
      using Some by (auto simp: emit_simps)
    have o1: "objects ?w1 = (objects w)(x \<mapsto> hidden b ob)"
      by (simp add: emit_simps)
    have xd: "x \<in> dom (objects w)" using Some by auto
    show ?thesis
      unfolding step Cons.IH [of ?w1] d
      by (rule ext) (simp add: o1 xd Some hidden_idem)
  qed
qed

lemma hide_objects_error:
  "fst (hide_objects xs b w) = (if set xs \<subseteq> dom (objects w) then None else Some AttributeError)"
proof (induction xs arbitrary: w)
  case Nil
  show ?case by (simp add: hide_objects_def)
next
  case (Cons x xs)
  show ?case
  proof (cases "objects w x")
    case None
    then show ?thesis by (auto simp: hide_objects_def hide_object_cases)
  next
    case (Some ob)
    let ?w1 = "emit [SetHideRender x b, SetHideViewport x b]
                 (w\<lparr>objects := (objects w)(x \<mapsto> hidden b ob)\<rparr>)"
    have step: "hide_objects (x # xs) b w = hide_objects xs b ?w1"
      by (simp add: hide_objects_def hide_object_cases Some)
    have d: "dom (objects ?w1) = dom (objects w)"
      using Some by (auto simp: emit_simps)
    have xd: "x \<in> dom (objects w)" using Some by auto
    show ?thesis
      unfolding step Cons.IH [of ?w1] d using xd by simp
  qed
qed

lemma hide_objects_dom: "dom (objects (snd (hide_objects xs b w))) = dom (objects w)"
  unfolding hide_objects_objects by (auto simp: dom_def split: if_splits)

subsection \<open>\<open>mute_and_unmute\<close>\<close>

lemma visibility_simps [simp]:
  "visibility (emit evs w) = visibility w"
  "visibility (put_tracks x ts w) = visibility w"
  "visibility (w\<lparr>frame_current := f\<rparr>) = visibility w"
proof -
  show "visibility (emit evs w) = visibility w"
    by (rule ext) (simp add: visibility_def emit_def)
  show "visibility (put_tracks x ts w) = visibility w"
    by (rule ext) (cases "objects w x"; simp add: visibility_def put_tracks_def)
  show "visibility (w\<lparr>frame_current := f\<rparr>) = visibility w"
    by (rule ext) (simp add: visibility_def)
qed

lemma surroundings_simps [simp]:
  "surroundings (emit evs w) = surroundings w"
  "surroundings (put_tracks x ts w) = surroundings w"
  "surroundings (w\<lparr>frame_current := f\<rparr>) = surroundings w"
proof -
  show "surroundings (emit evs w) = surroundings w"
    by (simp add: surroundings_def emit_simps)
  show "surroundings (put_tracks x ts w) = surroundings w"
    by (simp add: surroundings_def)
  show "surroundings (w\<lparr>frame_current := f\<rparr>) = surroundings w"
    by (simp add: surroundings_def)
qed

lemma set_first_member:
  "set_first n v ts = Some ts' \<Longrightarrow> (a, c) \<in> set ts' \<Longrightarrow> a = n \<or> (a, c) \<in> set ts"
  by (induction n v ts arbitrary: ts' rule: set_first.induct)
     (auto split: if_splits option.splits)

lemma set_first_unmuted:
  assumes "set_first n v ts = Some ts'"
  shows "set (map fst (filter (\<lambda>t. \<not> snd t) ts')) \<subseteq>
           set (map fst (filter (\<lambda>t. \<not> snd t) ts)) \<union> {n}"
proof
  fix a assume "a \<in> set (map fst (filter (\<lambda>t. \<not> snd t) ts'))"
  then obtain c where c: "(a, c) \<in> set ts'" "\<not> c" by auto
  from set_first_member [OF assms c(1)] have "a = n \<or> (a, c) \<in> set ts" .
  with c(2) show "a \<in> set (map fst (filter (\<lambda>t. \<not> snd t) ts)) \<union> {n}"
    by force
qed

lemma track_state_emit [simp]: "track_state x n (emit evs w) = track_state x n w"
  by (simp add: track_state_def)

lemma set_track_mute_effect:
  assumes "set_track_mute x n v w = (None, w')"
  shows "log w' = log w @ [SetMute x n v]"
    and "track_state x m w' = (if m = n then Some v else track_state x m w)"
    and "z \<noteq> x \<Longrightarrow> get_tracks z w' = get_tracks z w"
    and "track_names y w' = track_names y w"
    and "surroundings w' = surroundings w"
    and "set (unmuted_names x (objects w')) \<subseteq> set (unmuted_names x (objects w)) \<union> {n}"
proof -
  from set_track_mute_None [OF assms] obtain ts ts' where
    g: "get_tracks x w = Inr ts" and sf: "set_first n v ts = Some ts'" and
    w': "w' = emit [SetMute x n v] (put_tracks x ts' w)"
    by blast
  show "log w' = log w @ [SetMute x n v]" by (simp add: w' emit_simps)
  have g': "get_tracks x w' = Inr ts'" by (simp add: w' get_tracks_put_same [OF g])
  show "track_state x m w' = (if m = n then Some v else track_state x m w)"
    by (simp add: track_state_def g g' track_mute_set_first [OF sf])
  show "get_tracks z w' = get_tracks z w" if "z \<noteq> x"
    using that by (simp add: w' get_tracks_put_other)
  have "map fst ts' = track_names x w"
    by (simp add: track_names_def g set_first_names [OF sf])
  then show "track_names y w' = track_names y w"
    by (simp add: w' track_names_put)
  show "surroundings w' = surroundings w" by (simp add: w')
  from g obtain ob where ob: "objects w x = Some ob" "animation_data ob = Some ts"
    by (auto simp: get_tracks_def split: option.splits)
  from g' obtain ob' where ob': "objects w' x = Some ob'" "animation_data ob' = Some ts'"
    by (auto simp: get_tracks_def split: option.splits)
  show "set (unmuted_names x (objects w')) \<subseteq> set (unmuted_names x (objects w)) \<union> {n}"
    using set_first_unmuted [OF sf] by (simp add: unmuted_names_def ob ob')
qed

text \<open>One pass of \<open>mute_and_unmute\<close> over a list of track names.\<close>

lemma set_pass_effect:
  "for_each (\<lambda>y. set_track_mute x y v) ys w = (None, w') \<Longrightarrow>
     log w' = log w @ map (\<lambda>y. SetMute x y v) ys \<and>
     (\<forall>y \<in> set ys. track_state x y w' = Some v) \<and>
     (\<forall>m. m \<notin> set ys \<longrightarrow> track_state x m w' = track_state x m w) \<and>
     (\<forall>z. z \<noteq> x \<longrightarrow> get_tracks z w' = get_tracks z w) \<and>
     (\<forall>y. track_names y w' = track_names y w) \<and>
     surroundings w' = surroundings w \<and>
     set (unmuted_names x (objects w')) \<subseteq> set (unmuted_names x (objects w)) \<union> set ys"
proof (induction ys arbitrary: w)
  case Nil
  then show ?case by simp
next
  case (Cons a ys)
  from Cons.prems obtain w1 where
    b: "set_track_mute x a v w = (None, w1)" and
    rest: "for_each (\<lambda>y. set_track_mute x y v) ys w1 = (None, w')"
    unfolding for_each_Cons_None by blast
  note e = set_track_mute_effect [OF b]
  note IH = Cons.IH [OF rest]
  have "log w' = log w @ map (\<lambda>y. SetMute x y v) (a # ys)"
    using IH e(1) by simp
  moreover have "\<forall>y \<in> set (a # ys). track_state x y w' = Some v"
  proof
    fix y assume "y \<in> set (a # ys)"
    show "track_state x y w' = Some v"
    proof (cases "y \<in> set ys")
      case True
      with IH show ?thesis by blast
    next
      case False
      with \<open>y \<in> set (a # ys)\<close> have "y = a" by simp
      moreover from IH False have "track_state x y w' = track_state x y w1" by blast
      ultimately show ?thesis using e(2) [of a] by simp
    qed
  qed
  moreover have "\<forall>m. m \<notin> set (a # ys) \<longrightarrow> track_state x m w' = track_state x m w"
    using IH e(2) by simp
  moreover have "\<forall>z. z \<noteq> x \<longrightarrow> get_tracks z w' = get_tracks z w"
    using IH e(3) by simp
  moreover have "\<forall>y. track_names y w' = track_names y w"
    using IH e(4) by simp
  moreover have "surroundings w' = surroundings w"
    using IH e(5) by simp
  moreover have "set (unmuted_names x (objects w')) \<subseteq> set (unmuted_names x (objects w)) \<union> set (a # ys)"
    using IH e(6) by auto
  ultimately show ?case by blast
qed

lemma set_each_effect:
  assumes "set_each x arg v w = (None, w')"
  shows "log w' = log w @ map (\<lambda>y. SetMute x y v) (arg_names arg)"
    and "\<forall>y \<in> set (arg_names arg). track_state x y w' = Some v"
    and "\<forall>m. m \<notin> set (arg_names arg) \<longrightarrow> track_state x m w' = track_state x m w"
    and "\<forall>z. z \<noteq> x \<longrightarrow> get_tracks z w' = get_tracks z w"
    and "\<forall>y. track_names y w' = track_names y w"
    and "surroundings w' = surroundings w"
    and "set (unmuted_names x (objects w')) \<subseteq>
           set (unmuted_names x (objects w)) \<union> set (arg_names arg)"
proof -
  have all: "log w' = log w @ map (\<lambda>y. SetMute x y v) (arg_names arg) \<and>
     (\<forall>y \<in> set (arg_names arg). track_state x y w' = Some v) \<and>
     (\<forall>m. m \<notin> set (arg_names arg) \<longrightarrow> track_state x m w' = track_state x m w) \<and>
     (\<forall>z. z \<noteq> x \<longrightarrow> get_tracks z w' = get_tracks z w) \<and>
     (\<forall>y. track_names y w' = track_names y w) \<and>
     surroundings w' = surroundings w \<and>
     set (unmuted_names x (objects w')) \<subseteq> set (unmuted_names x (objects w)) \<union> set (arg_names arg)"
  proof (cases arg)
    case (PyInt i)
    with assms have "w' = w" by (simp add: set_each_def split: if_splits)
    then show ?thesis by (simp add: arg_names_def PyInt)
  next
    case (PyList ys)
    with assms have "for_each (\<lambda>y. set_track_mute x y v) ys w = (None, w')"
      by (simp add: set_each_def)
    from set_pass_effect [OF this] show ?thesis by (simp add: arg_names_def PyList)
  qed
  from all show "log w' = log w @ map (\<lambda>y. SetMute x y v) (arg_names arg)" by blast
  from all show "\<forall>y \<in> set (arg_names arg). track_state x y w' = Some v" by blast
  from all show "\<forall>m. m \<notin> set (arg_names arg) \<longrightarrow> track_state x m w' = track_state x m w" by blast
  from all show "\<forall>z. z \<noteq> x \<longrightarrow> get_tracks z w' = get_tracks z w" by blast
  from all show "\<forall>y. track_names y w' = track_names y w" by blast
  from all show "surroundings w' = surroundings w" by blast
  from all show "set (unmuted_names x (objects w')) \<subseteq>
           set (unmuted_names x (objects w)) \<union> set (arg_names arg)" by blast
qed

lemma mute_and_unmute_entry_effect:
  assumes "mute_and_unmute_entry (x, m, u) w = (None, w')"
  shows "log w' = log w @ entry_events (x, m, u)"
    and "\<forall>y \<in> set (arg_names u). track_state x y w' = Some False"
    and "\<forall>z. z \<noteq> x \<longrightarrow> get_tracks z w' = get_tracks z w"
    and "\<forall>y. track_names y w' = track_names y w"
    and "surroundings w' = surroundings w"
    and "set (unmuted_names x (objects w')) \<subseteq>
           set (unmuted_names x (objects w)) \<union> set (arg_names m) \<union> set (arg_names u)"
proof -
  from assms obtain w1 where
    p1: "set_each x m True w = (None, w1)" and p2: "set_each x u False w1 = (None, w')"
    unfolding mute_and_unmute_entry_def by (auto simp: seq_None)
  note a = set_each_effect [OF p1] and b = set_each_effect [OF p2]
  show "log w' = log w @ entry_events (x, m, u)"
    using a(1) b(1) by (simp add: entry_events_def)
  show "\<forall>y \<in> set (arg_names u). track_state x y w' = Some False" by (rule b(2))
  show "\<forall>z. z \<noteq> x \<longrightarrow> get_tracks z w' = get_tracks z w" using a(4) b(4) by simp
  show "\<forall>y. track_names y w' = track_names y w" using a(5) b(5) by simp
  show "surroundings w' = surroundings w" using a(6) b(6) by simp
  show "set (unmuted_names x (objects w')) \<subseteq>
           set (unmuted_names x (objects w)) \<union> set (arg_names m) \<union> set (arg_names u)"
    using a(7) b(7) by blast
qed

lemma for_each_append_None:
  "for_each body (as @ bs) w = (None, w') \<longleftrightarrow>
     (\<exists>w1. for_each body as w = (None, w1) \<and> for_each body bs w1 = (None, w'))"
proof (induction as arbitrary: w)
  case Nil
  show ?case by simp
next
  case (Cons a as)
  show ?case
    unfolding append_Cons for_each_Cons_None Cons.IH by blast
qed

lemma entries_effect:
  "for_each mute_and_unmute_entry es w = (None, w') \<Longrightarrow>
     log w' = log w @ concat (map entry_events es) \<and>
     (\<forall>z. z \<notin> fst ` set es \<longrightarrow> get_tracks z w' = get_tracks z w) \<and>
     (\<forall>y. track_names y w' = track_names y w) \<and>
     surroundings w' = surroundings w"
proof (induction es arbitrary: w)
  case Nil
  then show ?case by simp
next
  case (Cons e es)
  obtain x m u where e: "e = (x, m, u)" by (cases e)
  from Cons.prems obtain w1 where
    b: "mute_and_unmute_entry (x, m, u) w = (None, w1)" and
    rest: "for_each mute_and_unmute_entry es w1 = (None, w')"
    unfolding for_each_Cons_None e by blast
  note f = mute_and_unmute_entry_effect [OF b]
  note IH = Cons.IH [OF rest]
  have "log w' = log w @ concat (map entry_events (e # es))"
    using IH f(1) by (simp add: e)
  moreover have "\<forall>z. z \<notin> fst ` set (e # es) \<longrightarrow> get_tracks z w' = get_tracks z w"
    using IH f(3) by (simp add: e)
  moreover have "\<forall>y. track_names y w' = track_names y w" using IH f(4) by simp
  moreover have "surroundings w' = surroundings w" using IH f(5) by simp
  ultimately show ?case by blast
qed


subsection \<open>Frame numbers as file names\<close>

lemma digit_char_vals:
  "digit_char 0 = CHR ''0''" "digit_char 1 = CHR ''1''" "digit_char 2 = CHR ''2''"
  "digit_char 3 = CHR ''3''" "digit_char 4 = CHR ''4''" "digit_char 5 = CHR ''5''"
  "digit_char 6 = CHR ''6''" "digit_char 7 = CHR ''7''" "digit_char 8 = CHR ''8''"
  "digit_char 9 = CHR ''9''" "digit_char (Suc 0) = CHR ''1''"
  by (simp_all add: digit_char_def)

lemma digit_char_code: "d < 10 \<Longrightarrow> (of_char (digit_char d) :: nat) = 48 + d"
proof -
  assume "d < 10"
  then consider "d = 0" | "d = 1" | "d = 2" | "d = 3" | "d = 4" | "d = 5" | "d = 6"
    | "d = 7" | "d = 8" | "d = 9" by atomize_elim arith
  then show ?thesis by cases (simp_all add: digit_char_vals)
qed

lemma digit_char_not_sign: "d < 10 \<Longrightarrow> digit_char d \<noteq> CHR ''+'' \<and> digit_char d \<noteq> CHR ''-''"
proof -
  assume "d < 10"
  then consider "d = 0" | "d = 1" | "d = 2" | "d = 3" | "d = 4" | "d = 5" | "d = 6"
    | "d = 7" | "d = 8" | "d = 9" by atomize_elim arith
  then show ?thesis by cases (simp_all add: digit_char_vals)
qed

lemma str_nat_small: "n < 10 \<Longrightarrow> str_nat n = [digit_char n]"
  by (subst str_nat.simps) simp

lemma str_nat_two: "10 \<le> n \<Longrightarrow> n < 100 \<Longrightarrow> str_nat n = [digit_char (n div 10), digit_char (n mod 10)]"
  by (subst str_nat.simps) (simp add: str_nat_small)

lemma str_nat_three:
  "100 \<le> n \<Longrightarrow> n < 1000 \<Longrightarrow>
     str_nat n = [digit_char (n div 100), digit_char (n div 10 mod 10), digit_char (n mod 10)]"
proof -
  assume a: "100 \<le> n" "n < 1000"
  then have b: "10 \<le> n div 10" "n div 10 < 100" by auto
  have c: "n div 10 div 10 = n div 100" by (simp add: div_mult2_eq [symmetric])
  have "str_nat n = str_nat (n div 10) @ [digit_char (n mod 10)]"
    using a by (subst str_nat.simps) simp
  then show ?thesis by (simp add: str_nat_two [OF b] c)
qed

lemma zfill_frame:
  assumes "0 \<le> f" "f \<le> 999"
  shows "zfill 3 (str f) =
     [digit_char (nat f div 100), digit_char (nat f div 10 mod 10), digit_char (nat f mod 10)]"
proof -
  define n where "n = nat f"
  have s: "str f = str_nat n" using assms by (simp add: str_def n_def)
  have n: "n < 1000" using assms by (simp add: n_def)
  consider "n < 10" | "10 \<le> n" "n < 100" | "100 \<le> n" by atomize_elim arith
  then have "zfill 3 (str_nat n) =
     [digit_char (n div 100), digit_char (n div 10 mod 10), digit_char (n mod 10)]"
  proof cases
    case 1
    then have "zfill 3 (str_nat n) = [CHR ''0'', CHR ''0'', digit_char n]"
      using digit_char_not_sign [OF 1]
      by (simp add: str_nat_small zfill_def numeral_2_eq_2)
    with 1 show ?thesis by (simp add: digit_char_vals)
  next
    case 2
    then have d: "n div 10 < 10" by auto
    have "zfill 3 (str_nat n) = [CHR ''0'', digit_char (n div 10), digit_char (n mod 10)]"
      using digit_char_not_sign [OF d] 2
      by (simp add: str_nat_two zfill_def)
    with 2 d show ?thesis by (simp add: digit_char_vals)
  next
    case 3
    with n show ?thesis by (simp add: str_nat_three zfill_def)
  qed
  then show ?thesis by (simp add: s n_def)
qed

lemma str_less_prefix: "str_less (p @ a) (p @ b) = str_less a b"
  by (induction p) simp_all

lemma str_less_irrefl: "\<not> str_less a a"
  by (induction a) simp_all

lemma mod_less_of_div_eq:
  fixes x y k :: nat
  assumes "x < y" "x div k = y div k"
  shows "x mod k < y mod k"
proof -
  have "k * (y div k) + x mod k = x"
    using assms(2) by (metis mult_div_mod_eq)
  moreover have "k * (y div k) + y mod k = y" by simp
  ultimately have "k * (y div k) + x mod k < k * (y div k) + y mod k"
    using assms(1) by (simp only:)
  then show ?thesis by (simp only: add_less_cancel_left)
qed

lemma three_digits_less:
  assumes "a < b" "b < (1000::nat)"
  shows "str_less [digit_char (a div 100), digit_char (a div 10 mod 10), digit_char (a mod 10)]
                  [digit_char (b div 100), digit_char (b div 10 mod 10), digit_char (b mod 10)]"
proof -
  have da: "a div 100 < 10" "a div 10 mod 10 < 10" "a mod 10 < 10" using assms by auto
  have db: "b div 100 < 10" "b div 10 mod 10 < 10" "b mod 10 < 10" using assms by auto
  have h: "a div 10 div 10 = a div 100" "b div 10 div 10 = b div 100"
    by (simp_all add: div_mult2_eq [symmetric])
  have le1: "a div 100 \<le> b div 100" using assms(1) by (simp add: div_le_mono)
  have le2: "a div 10 \<le> b div 10" using assms(1) by (simp add: div_le_mono)
  have c: "a div 100 < b div 100 \<or>
        (a div 100 = b div 100 \<and> (a div 10 mod 10 < b div 10 mod 10 \<or>
           (a div 10 mod 10 = b div 10 mod 10 \<and> a mod 10 < b mod 10)))"
  proof (cases "a div 100 < b div 100")
    case True
    then show ?thesis by simp
  next
    case False
    with le1 have e1: "a div 100 = b div 100" by simp
    show ?thesis
    proof (cases "a div 10 < b div 10")
      case True
      from mod_less_of_div_eq [OF True] e1 h
      have "a div 10 mod 10 < b div 10 mod 10" by simp
      with e1 show ?thesis by simp
    next
      case False
      with le2 have e2: "a div 10 = b div 10" by simp
      from mod_less_of_div_eq [OF assms(1) e2] have "a mod 10 < b mod 10" .
      with e1 e2 show ?thesis by simp
    qed
  qed
  have s: "str_less [x1, x2, x3] [y1, y2, y3] \<longleftrightarrow>
      (of_char x1 :: nat) < of_char y1 \<or> (x1 = y1 \<and>
        ((of_char x2 :: nat) < of_char y2 \<or> (x2 = y2 \<and> (of_char x3 :: nat) < of_char y3)))"
    for x1 x2 x3 y1 y2 y3
    by simp
  from c show ?thesis
    unfolding s digit_char_code [OF da(1)] digit_char_code [OF da(2)]
      digit_char_code [OF da(3)] digit_char_code [OF db(1)] digit_char_code [OF db(2)]
      digit_char_code [OF db(3)]
    by (elim disjE conjE) simp_all
qed

lemma frame_filename_less:
  assumes "0 \<le> f1" "f1 < f2" "f2 \<le> 999"
  shows "str_less (frame_filename p f1) (frame_filename p f2)"
proof -
  have "nat f1 < nat f2" "nat f2 < 1000" using assms by auto
  note t = three_digits_less [OF this]
  have z1: "zfill 3 (str f1) = [digit_char (nat f1 div 100), digit_char (nat f1 div 10 mod 10),
      digit_char (nat f1 mod 10)]"
    using assms by (intro zfill_frame) simp_all
  have z2: "zfill 3 (str f2) = [digit_char (nat f2 div 100), digit_char (nat f2 div 10 mod 10),
      digit_char (nat f2 mod 10)]"
    using assms by (intro zfill_frame) simp_all
  have "str_less (zfill 3 (str f1) @ ''.png'') (zfill 3 (str f2) @ ''.png'')"
    using t unfolding z1 z2 by auto
  then have "str_less ((p @ ''_'') @ zfill 3 (str f1) @ ''.png'') ((p @ ''_'') @ zfill 3 (str f2) @ ''.png'')"
    by (simp only: str_less_prefix)
  then show ?thesis by (simp add: frame_filename_def)
qed

lemma range_up_member:
  "0 < step \<Longrightarrow>
     f \<in> set (range_up s (e + 1) step) \<longleftrightarrow> s \<le> f \<and> f \<le> e \<and> (f - s) mod step = 0"
proof (induction s "e + 1" step rule: range_up.induct)
  case (1 i step)
  show ?case
  proof (cases "i \<le> e")
    case False
    then have "range_up i (e + 1) step = []" by (intro range_up_Nil) simp
    moreover from False have "\<not> (i \<le> f \<and> f \<le> e)" by simp
    ultimately show ?thesis by auto
  next
    case True
    have c: "0 < step \<and> i < e + 1" using True "1.prems" by simp
    have unf: "range_up i (e + 1) step = i # range_up (i + step) (e + 1) step"
      using c by (intro range_up_Cons) simp_all
    have IH: "f \<in> set (range_up (i + step) (e + 1) step) \<longleftrightarrow>
        i + step \<le> f \<and> f \<le> e \<and> (f - (i + step)) mod step = 0"
      by (rule "1.hyps" [OF c "1.prems"])
    have m: "(f - (i + step)) mod step = (f - i) mod step"
    proof -
      have "f - (i + step) = f - i - step" by simp
      then show ?thesis by (simp only: minus_mod_self2)
    qed
    have k: "i + step \<le> f" if "i \<le> f" "f \<noteq> i" "(f - i) mod step = 0"
    proof (rule ccontr)
      assume "\<not> i + step \<le> f"
      with that have p: "0 < f - i" "f - i < step" by simp_all
      then have "(f - i) mod step = f - i" by simp
      with that(3) p(1) show False by simp
    qed
    have "f \<in> set (range_up i (e + 1) step) \<longleftrightarrow>
        f = i \<or> (i + step \<le> f \<and> f \<le> e \<and> (f - i) mod step = 0)"
      by (simp only: unf list.set insert_iff IH m)
    also have "\<dots> \<longleftrightarrow> i \<le> f \<and> f \<le> e \<and> (f - i) mod step = 0"
    proof
      assume "f = i \<or> (i + step \<le> f \<and> f \<le> e \<and> (f - i) mod step = 0)"
      then show "i \<le> f \<and> f \<le> e \<and> (f - i) mod step = 0"
      proof
        assume "f = i"
        with True show ?thesis by simp
      next
        assume "i + step \<le> f \<and> f \<le> e \<and> (f - i) mod step = 0"
        with "1.prems" show ?thesis by simp
      qed
    next
      assume a: "i \<le> f \<and> f \<le> e \<and> (f - i) mod step = 0"
      show "f = i \<or> (i + step \<le> f \<and> f \<le> e \<and> (f - i) mod step = 0)"
      proof (cases "f = i")
        case True
        then show ?thesis by simp
      next
        case False
        with a have "i + step \<le> f" by (intro k) simp_all
        with a show ?thesis by simp
      qed
    qed
    finally show ?thesis .
  qed
qed


subsection \<open>Procedures that neither render nor create a directory\<close>

lemma silent_append: "silent (a @ b) \<longleftrightarrow> silent a \<and> silent b"
  by (induction a rule: silent.induct) simp_all

lemma silent_renders: "silent evs \<Longrightarrow> renders evs = []"
  by (induction evs rule: silent.induct) simp_all

lemma silent_no_makedirs: "silent evs \<Longrightarrow> MakeDirs p \<notin> set evs"
  by (induction evs rule: silent.induct) auto

lemma silent_map_SetMute: "silent (map (\<lambda>n. SetMute x (g n) v) ns)"
  by (induction ns) simp_all

lemma quietI: "(\<And>w. \<exists>evs. log (snd (f w)) = log w @ evs \<and> silent evs) \<Longrightarrow> quiet f"
  by (simp add: quiet_def)

lemma quietD: "quiet f \<Longrightarrow> \<exists>evs. log (snd (f w)) = log w @ evs \<and> silent evs"
  by (simp add: quiet_def)

lemma quiet_seq:
  assumes "quiet f" "quiet g"
  shows "quiet (seq f g)"
proof (rule quietI)
  fix w
  obtain r w1 where f: "f w = (r, w1)" by (cases "f w")
  from quietD [OF assms(1), of w] f obtain e1 where e1: "log w1 = log w @ e1" "silent e1"
    by auto
  show "\<exists>evs. log (snd (seq f g w)) = log w @ evs \<and> silent evs"
  proof (cases r)
    case (Some e)
    with f have "seq f g w = (Some e, w1)" by (simp add: seq_def)
    with e1 show ?thesis by simp
  next
    case None
    with f have s: "seq f g w = g w1" by (simp add: seq_def)
    from quietD [OF assms(2), of w1] obtain e2 where
      e2: "log (snd (g w1)) = log w1 @ e2" "silent e2" by blast
    have "log (snd (seq f g w)) = log w @ (e1 @ e2)" by (simp add: s e1 e2)
    moreover have "silent (e1 @ e2)" using e1 e2 by (simp add: silent_append)
    ultimately show ?thesis by blast
  qed
qed

lemma quiet_for_each:
  assumes "\<And>x. quiet (body x)"
  shows "quiet (for_each body xs)"
proof (induction xs)
  case Nil
  show ?case by (rule quietI) simp
next
  case (Cons x xs)
  have "for_each body (x # xs) = seq (body x) (for_each body xs)"
    by (rule ext) (simp add: seq_def)
  with quiet_seq [OF assms Cons.IH] show ?case by simp
qed

lemma quiet_raise: "quiet (\<lambda>w. (r, w))"
  by (rule quietI) simp

lemma quiet_frame_set: "quiet (frame_set f)"
  by (rule quietI) (simp add: frame_set_def emit_simps)

lemma quiet_mute_tracks: "quiet (mute_tracks x v)"
proof (rule quietI)
  fix w
  show "\<exists>evs. log (snd (mute_tracks x v w)) = log w @ evs \<and> silent evs"
  proof (cases "get_tracks x w")
    case (Inl e)
    then show ?thesis by (simp add: mute_tracks_def)
  next
    case (Inr ts)
    then show ?thesis
      by (simp add: mute_tracks_def emit_simps silent_map_SetMute)
  qed
qed

lemma quiet_set_track_mute: "quiet (set_track_mute x n v)"
proof (rule quietI)
  fix w
  show "\<exists>evs. log (snd (set_track_mute x n v w)) = log w @ evs \<and> silent evs"
  proof (cases "get_tracks x w")
    case (Inl e)
    then show ?thesis by (simp add: set_track_mute_def)
  next
    case (Inr ts)
    then show ?thesis
      by (cases "set_first n v ts") (simp_all add: set_track_mute_def emit_simps)
  qed
qed

lemma quiet_hide_object: "quiet (hide_object b x)"
proof (rule quietI)
  fix w
  show "\<exists>evs. log (snd (hide_object b x w)) = log w @ evs \<and> silent evs"
    by (cases "objects w x") (simp_all add: hide_object_def emit_simps)
qed

lemma quiet_hide_objects: "quiet (hide_objects xs b)"
  unfolding hide_objects_def by (rule quiet_for_each) (rule quiet_hide_object)

lemma quiet_reset_tracks: "quiet (reset_tracks obj)"
  unfolding reset_tracks_def reset_tracks_body_def
  by (intro quiet_for_each quiet_seq quiet_frame_set quiet_mute_tracks quiet_set_track_mute)

lemma quiet_set_each: "quiet (set_each x arg v)"
proof (cases arg)
  case (PyInt i)
  then show ?thesis by (simp add: set_each_def quiet_raise)
next
  case (PyList ys)
  then show ?thesis
    by (simp add: set_each_def quiet_for_each quiet_set_track_mute)
qed

lemma quiet_mute_and_unmute: "quiet (mute_and_unmute objs tm tu)"
proof -
  have "quiet (mute_and_unmute_entry e)" for e
    by (cases e) (simp add: mute_and_unmute_entry_def quiet_seq quiet_set_each)
  then show ?thesis
    unfolding mute_and_unmute_def by (rule quiet_for_each)
qed

subsection \<open>One iteration of the animation loop\<close>

lemma visibility_flags: "visibility w = hidden_flags (objects w)"
  by (rule ext) (simp add: visibility_def hidden_flags_def)

lemma for_each_single: "for_each body [x] w = body x w"
  by (cases "body x w") (auto split: option.splits)

lemma hide_objects_single:
  "objects w x \<noteq> None \<Longrightarrow>
     hide_objects [x] b w =
       (None, emit [SetHideRender x b, SetHideViewport x b] (set_hidden x b w))"
  by (auto simp: hide_objects_def for_each_single hide_object_cases set_hidden_def)

lemma set_hidden_simps [simp]:
  "log (set_hidden x b w) = log w"
  "frame_current (set_hidden x b w) = frame_current w"
  "frame_end (set_hidden x b w) = frame_end w"
  "dirs (set_hidden x b w) = dirs w"
  "blend_dir (set_hidden x b w) = blend_dir w"
  by (cases "objects w x"; simp add: set_hidden_def)+

lemma get_tracks_set_hidden [simp]: "get_tracks y (set_hidden x b w) = get_tracks y w"
  by (cases "objects w x") (auto simp: set_hidden_def get_tracks_def hidden_def)

lemma track_names_set_hidden [simp]: "track_names y (set_hidden x b w) = track_names y w"
  by (simp add: track_names_def)

lemma objects_set_hidden_None [simp]:
  "objects (set_hidden x b w) y = None \<longleftrightarrow> objects w y = None"
  by (cases "objects w x") (auto simp: set_hidden_def)

lemma flags_set_hidden:
  "objects w x \<noteq> None \<Longrightarrow>
     hidden_flags (objects (set_hidden x b w)) = (hidden_flags (objects w))(x \<mapsto> (b, b))"
  by (rule ext) (auto simp: set_hidden_def hidden_flags_def hidden_def)

lemma set_hidden_same:
  assumes "hidden_flags (objects w) x = Some (b, b)"
  shows "set_hidden x b w = w"
proof -
  from assms obtain ob where ob: "objects w x = Some ob" "hide_render ob = b" "hide_viewport ob = b"
    by (auto simp: hidden_flags_def)
  then have "hidden b ob = ob" by (simp add: hidden_def)
  with ob have "(objects w)(x \<mapsto> hidden b ob) = objects w" by (simp add: map_upd_triv)
  with ob show ?thesis by (simp add: set_hidden_def)
qed

lemma emit_world_simps [simp]:
  "get_tracks y (w\<lparr>frame_end := k\<rparr>) = get_tracks y w"
  "track_names y (w\<lparr>frame_end := k\<rparr>) = track_names y w"
  by (simp_all add: get_tracks_def track_names_def)

lemma has_track_simps [simp]:
  "has_track y n (emit evs w) = has_track y n w"
  "has_track y n (set_hidden x b w) = has_track y n w"
  "has_track y n (w\<lparr>frame_end := k\<rparr>) = has_track y n w"
  by (simp_all add: has_track_def)

lemma all_muted_unmuted: "all_muted x w \<Longrightarrow> unmuted_names x (objects w) = []"
  by (auto simp: all_muted_def unmuted_names_def get_tracks_def list_all_iff filter_empty_conv
      split: option.splits sum.splits)

lemma ensure_dir_effect:
  "fst (ensure_dir p w) = None"
  "objects (snd (ensure_dir p w)) = objects w"
  "frame_end (snd (ensure_dir p w)) = frame_end w"
  "\<exists>evs. log (snd (ensure_dir p w)) = log w @ evs \<and> renders evs = []"
  by (simp_all add: ensure_dir_def emit_simps)

lemma run_animation_Some:
  "run_animation n base (Some obs) mr s a w =
     seq (hide_objects [''ShadowPlane''] False)
    (seq (reset_tracks obs)
    (seq (mute_and_unmute obs [PyList mr] [PyList [a, ''Rotation'']])
    (seq (ensure_dir (os_path_join (base @ n) a))
         (write_animations2 (anim_prefix base n a) 2 s (frame_end w))))) w"
  by (simp add: run_animation_def Let_def anim_prefix_def)

lemma run_animation_None:
  "run_animation n base None mr s a w =
     seq (hide_objects [''ShadowPlane''] False) (\<lambda>w'. (Some UnboundLocalError, w')) w"
  by (simp add: run_animation_def Let_def)

lemma run_animation_renders:
  "\<exists>evs. log (snd (run_animation n base (Some [''rig'']) [] s a w)) = log w @ evs \<and>
     (\<forall>r \<in> set (renders evs). render_of (anim_prefix base n a) a r)"
proof -
  let ?pfx = "anim_prefix base n a"
  let ?run = "run_animation n base (Some [''rig'']) [] s a w"
  obtain r0 w0 where h: "hide_objects [''ShadowPlane''] False w = (r0, w0)" by force
  from quietD [OF quiet_hide_objects, of "[''ShadowPlane'']" False w] h
  obtain e0 where e0: "log w0 = log w @ e0" "silent e0" by auto
  show ?thesis
  proof (cases r0)
    case (Some e)
    with h have "?run = (Some e, w0)" by (simp add: run_animation_Some seq_def)
    with e0 show ?thesis by (auto simp: silent_renders)
  next
    case None
    note r0 = None
    obtain r1 w1 where rt: "reset_tracks [''rig''] w0 = (r1, w1)" by force
    from quietD [OF quiet_reset_tracks, of "[''rig'']" w0] rt
    obtain e1 where e1: "log w1 = log w0 @ e1" "silent e1" by auto
    show ?thesis
    proof (cases r1)
      case (Some e)
      with h r0 rt have "?run = (Some e, w1)" by (simp add: run_animation_Some seq_def)
      moreover have "log w1 = log w @ (e0 @ e1)" "silent (e0 @ e1)"
        using e0 e1 by (simp_all add: silent_append)
      ultimately show ?thesis by (auto simp: silent_renders simp del: append_assoc)
    next
      case None
      note r1 = None
      with rt have "reset_tracks [''rig''] w0 = (None, w1)" by simp
      from reset_tracks_effect [OF this] have "settled ''rig'' w1" by simp
      then have u1: "unmuted_names ''rig'' (objects w1) = []"
        by (simp add: settled_def all_muted_unmuted)
      obtain r2 w2 where mu:
        "mute_and_unmute [''rig''] [PyList []] [PyList [a, ''Rotation'']] w1 = (r2, w2)" by force
      from quietD [OF quiet_mute_and_unmute, of "[''rig'']" "[PyList []]" "[PyList [a, ''Rotation'']]" w1] mu
      obtain e2 where e2: "log w2 = log w1 @ e2" "silent e2" by auto
      have e012: "log w2 = log w @ (e0 @ e1 @ e2)" "silent (e0 @ e1 @ e2)"
        using e0 e1 e2 by (simp_all add: silent_append)
      show ?thesis
      proof (cases r2)
        case (Some e)
        with h r0 rt r1 mu have "?run = (Some e, w2)" by (simp add: run_animation_Some seq_def)
        with e012 show ?thesis by (auto simp: silent_renders simp del: append_assoc)
      next
        case None
        with mu have "mute_and_unmute_entry (''rig'', PyList [], PyList [a, ''Rotation'']) w1 = (None, w2)"
          by (simp add: mute_and_unmute_def for_each_single del: for_each.simps)
        from mute_and_unmute_entry_effect(6) [OF this] u1
        have u2: "set (unmuted_names ''rig'' (objects w2)) \<subseteq> {a, ''Rotation''}"
          by (auto simp: arg_names_def)
        let ?d = "os_path_join (base @ n) a"
        define w3 where "w3 = snd (ensure_dir ?d w2)"
        from ensure_dir_effect(4) [of ?d w2] obtain e3 where
          e3: "log w3 = log w2 @ e3" "renders e3 = []" unfolding w3_def by blast
        have ed: "ensure_dir ?d w2 = (None, w3)"
          using ensure_dir_effect(1) [of ?d w2] by (simp add: prod_eq_iff w3_def)
        have o3: "objects w3 = objects w2" by (simp add: w3_def ensure_dir_effect(2))
        let ?fs = "range_up s (frame_end w + 1) 2"
        define w4 where "w4 = snd (write_animations2 ?pfx 2 s (frame_end w) w3)"
        have wa: "write_animations2 ?pfx 2 s (frame_end w) w3 = (None, w4)"
          using write_animations2_up(1) [of 2 ?pfx s "frame_end w" w3]
          by (simp add: prod_eq_iff w4_def)
        have l4: "log w4 = log w3 @ concat (map (frame_events (objects w2) ?pfx) ?fs)"
          using write_animations2_up(3) [of 2 ?pfx s "frame_end w" w3]
          by (simp add: w4_def o3)
        have run: "?run = (None, w4)"
          using h r0 rt r1 mu None ed wa by (simp add: run_animation_Some seq_def)
        let ?evs = "(e0 @ e1 @ e2) @ e3 @ concat (map (frame_events (objects w2) ?pfx) ?fs)"
        have "log (snd ?run) = log w @ ?evs"
          by (simp add: run l4 e3 e012)
        moreover have "renders ?evs = map (\<lambda>f. (f, frame_filename ?pfx f, objects w2)) ?fs"
          using e0(2) e1(2) e2(2) e3(2)
          by (simp add: renders_append silent_renders renders_frame_events)
        moreover have "\<forall>r \<in> set (map (\<lambda>f. (f, frame_filename ?pfx f, objects w2)) ?fs).
            render_of ?pfx a r"
          using u2 by (simp add: render_of_def)
        ultimately show ?thesis by metis
      qed
    qed
  qed
qed

subsection \<open>\<open>run_case\<close>\<close>

lemma run_case_unfold:
  "run_case n w =
     (case before_dispatch w of
        (Some e, w1) \<Rightarrow> (Some e, w1)
      | (None, w1) \<Rightarrow>
          (case case_selector n w1 of
             (objs, w2) \<Rightarrow> for_each (run_animation n (base_path_of w) objs [] 1) animation_list w2))"
  by (auto simp: run_case_def Let_def before_dispatch_def base_path_of_def
      split: prod.splits option.splits)

lemma quiet_before_dispatch: "quiet before_dispatch"
  unfolding before_dispatch_def by (intro quiet_seq quiet_hide_objects)

lemma hide_objects_single_None:
  assumes "hide_objects [x] b w = (None, w')"
  shows "objects w x \<noteq> None"
    and "w' = emit [SetHideRender x b, SetHideViewport x b] (set_hidden x b w)"
proof -
  from assms have "fst (hide_objects [x] b w) = None" by simp
  then show ex: "objects w x \<noteq> None"
    by (auto simp: hide_objects_error split: if_splits)
  from hide_objects_single [OF ex, of b] assms
  show "w' = emit [SetHideRender x b, SetHideViewport x b] (set_hidden x b w)" by simp
qed

lemma hidden_flags_emit [simp]:
  "hidden_flags (objects (emit evs w)) = hidden_flags (objects w)"
  by (simp add: emit_simps)

lemma before_dispatch_None:
  assumes "before_dispatch w = (None, w1)"
  shows "hidden_flags (objects w1) ''visibleground'' = Some (True, True)"
    and "hidden_flags (objects w1) ''ShadowPlane'' = Some (False, False)"
    and "has_track x n w1 = has_track x n w"
    and "blend_dir w1 = blend_dir w"
    and "\<exists>evs. log w1 = log w @ evs \<and> silent evs"
proof -
  from assms obtain wa where
    a: "hide_objects [''visibleground''] True w = (None, wa)" and
    b: "hide_objects [''ShadowPlane''] False wa = (None, w1)"
    unfolding before_dispatch_def seq_None by blast
  note ha = hide_objects_single_None [OF a] and hb = hide_objects_single_None [OF b]
  have fa: "hidden_flags (objects wa) = (hidden_flags (objects w))(''visibleground'' \<mapsto> (True, True))"
    unfolding ha(2) using ha(1) by (simp add: flags_set_hidden)
  have fb: "hidden_flags (objects w1) = (hidden_flags (objects wa))(''ShadowPlane'' \<mapsto> (False, False))"
    unfolding hb(2) using hb(1) by (simp add: flags_set_hidden)
  show "hidden_flags (objects w1) ''visibleground'' = Some (True, True)"
    by (simp add: fa fb)
  show "hidden_flags (objects w1) ''ShadowPlane'' = Some (False, False)"
    by (simp add: fb)
  show "has_track x n w1 = has_track x n w"
    by (simp add: ha(2) hb(2))
  show "blend_dir w1 = blend_dir w"
    by (simp add: ha(2) hb(2) emit_simps)
  from quietD [OF quiet_before_dispatch, of w] assms
  show "\<exists>evs. log w1 = log w @ evs \<and> silent evs" by simp
qed

lemma before_dispatch_returns:
  assumes "objects w ''visibleground'' \<noteq> None" "objects w ''ShadowPlane'' \<noteq> None"
  shows "fst (before_dispatch w) = None"
proof -
  let ?wa = "emit [SetHideRender ''visibleground'' True, SetHideViewport ''visibleground'' True]
               (set_hidden ''visibleground'' True w)"
  have a: "hide_objects [''visibleground''] True w = (None, ?wa)"
    by (rule hide_objects_single [OF assms(1)])
  have "objects ?wa ''ShadowPlane'' \<noteq> None"
    using assms(2) by (simp add: emit_simps)
  from hide_objects_single [OF this, of False] a show ?thesis
    by (simp add: before_dispatch_def seq_def)
qed

lemma run_animation_unbound:
  assumes "hidden_flags (objects w) ''ShadowPlane'' = Some (False, False)"
  shows "run_animation n base None mr s a w =
     (Some UnboundLocalError,
      emit [SetHideRender ''ShadowPlane'' False, SetHideViewport ''ShadowPlane'' False] w)"
proof -
  from assms have ex: "objects w ''ShadowPlane'' \<noteq> None"
    by (auto simp: hidden_flags_def)
  from hide_objects_single [OF ex, of False] set_hidden_same [OF assms]
  show ?thesis by (simp add: run_animation_None seq_def)
qed

lemma for_each_raise: "body x w = (Some e, w') \<Longrightarrow> for_each body (x # xs) w = (Some e, w')"
  by simp

lemma run_case_unsupported:
  assumes n: "n \<noteq> ''squirrel''" and bd: "before_dispatch w = (None, w1)"
  shows "run_case n w =
     (Some UnboundLocalError,
      emit [Print (''Animal '' @ n @ '' not supported!''),
            SetHideRender ''ShadowPlane'' False, SetHideViewport ''ShadowPlane'' False] w1)"
proof -
  let ?d = "Print (''Animal '' @ n @ '' not supported!'')"
  have cs: "case_selector n w1 = (None, emit [?d] w1)"
    using n by (simp add: case_selector_def)
  have "hidden_flags (objects (emit [?d] w1)) ''ShadowPlane'' = Some (False, False)"
    using before_dispatch_None(2) [OF bd] by simp
  from run_animation_unbound [OF this]
  have "for_each (run_animation n (base_path_of w) None [] 1) animation_list (emit [?d] w1) =
      (Some UnboundLocalError,
       emit [SetHideRender ''ShadowPlane'' False, SetHideViewport ''ShadowPlane'' False] (emit [?d] w1))"
    unfolding animation_list_def by (intro for_each_raise)
  then show ?thesis
    by (simp add: run_case_unfold bd cs world_normal)
qed


subsection \<open>A run for the supported subject\<close>

lemma reset_tracks_surroundings:
  "reset_tracks obj w = (None, w') \<Longrightarrow> surroundings w' = surroundings w"
proof (induction obj arbitrary: w)
  case Nil
  then show ?case by (simp add: reset_tracks_def)
next
  case (Cons x xs)
  from Cons.prems obtain w1 where
    b: "reset_tracks_body x w = (None, w1)" and
    rest: "reset_tracks xs w1 = (None, w')"
    unfolding reset_tracks_def for_each_Cons_None by blast
  from reset_tracks_body_result [OF b] have "surroundings w1 = surroundings w" by auto
  with Cons.IH [OF rest] show ?case by simp
qed

lemma set_pass_returns:
  "\<forall>y \<in> set ys. has_track x y w \<Longrightarrow> fst (for_each (\<lambda>y. set_track_mute x y v) ys w) = None"
proof (induction ys arbitrary: w)
  case Nil
  show ?case by simp
next
  case (Cons a ys)
  from Cons.prems have "has_track x a w" by simp
  then obtain ts where ts: "get_tracks x w = Inr ts" "a \<in> set (map fst ts)"
    by (cases "get_tracks x w") (simp_all add: has_track_def track_names_def)
  from ts(2) obtain ts' where sf: "set_first a v ts = Some ts'"
    using set_first_None_iff [of a v ts] by auto
  let ?w1 = "emit [SetMute x a v] (put_tracks x ts' w)"
  have b: "set_track_mute x a v w = (None, ?w1)"
    by (rule set_track_mute_ok [OF ts(1) sf])
  have "\<forall>y \<in> set ys. has_track x y ?w1"
    using Cons.prems set_track_mute_effect(4) [OF b] by (simp add: has_track_def)
  from Cons.IH [OF this] b show ?case by simp
qed

lemma unmute_pair_returns:
  assumes "has_track x a w" "has_track x b w"
  shows "fst (mute_and_unmute [x] [PyList []] [PyList [a, b]] w) = None"
proof -
  have "fst (for_each (\<lambda>y. set_track_mute x y False) [a, b] w) = None"
    using assms by (intro set_pass_returns) simp
  then show ?thesis
    by (simp add: mute_and_unmute_def for_each_single mute_and_unmute_entry_def seq_def
        set_each_def del: for_each.simps(2))
qed

lemma range_up_arith:
  "0 < step \<Longrightarrow> range_up s (s + step * int n) step = map (\<lambda>k. s + step * int k) [0..<n]"
proof (induction n arbitrary: s)
  case 0
  show ?case by (simp add: range_up_Nil)
next
  case (Suc n)
  have lt: "s < s + step * int (Suc n)" using Suc.prems by simp
  have e: "s + step * int (Suc n) = (s + step) + step * int n"
    by (simp add: algebra_simps)
  have "range_up s (s + step * int (Suc n)) step =
      s # range_up (s + step) ((s + step) + step * int n) step"
    using range_up_Cons [OF Suc.prems lt] by (simp only: e)
  also have "\<dots> = s # map (\<lambda>k. (s + step) + step * int k) [0..<n]"
    by (simp only: Suc.IH [OF Suc.prems])
  also have "\<dots> = map (\<lambda>k. s + step * int k) [0..<Suc n]"
  proof -
    have "[0..<Suc n] = 0 # map Suc [0..<n]"
      by (simp only: upt_conv_Cons [of 0 "Suc n"] map_Suc_upt)
    then show ?thesis by (simp add: comp_def algebra_simps)
  qed
  finally show ?case .
qed

lemma scenario_frames: "range_up 1 (160 + 1) 2 = map (\<lambda>k. 2 * int k + 1) [0..<80]"
proof -
  have "(160::int) + 1 = 1 + 2 * int 80" by simp
  then have "range_up 1 (160 + 1) 2 = range_up 1 (1 + 2 * int 80) 2" by simp
  also have "\<dots> = map (\<lambda>k. 1 + 2 * int k) [0..<80]"
    by (rule range_up_arith) simp
  finally show ?thesis by (simp add: add.commute)
qed

lemma os_path_join_plain:
  "a \<noteq> [] \<Longrightarrow> last a \<noteq> CHR ''/'' \<Longrightarrow> b \<noteq> [] \<Longrightarrow> hd b \<noteq> CHR ''/'' \<Longrightarrow>
     os_path_join a b = a @ ''/'' @ b"
  by (simp add: os_path_join_def)

lemma anim_prefix_Idle1:
  "anim_prefix (base_path_of w) ''squirrel'' ''Idle1'' =
     os_path_join (blend_dir w) ''renders'' @ ''/squirrel/Idle1/Idle1''"
  by (simp add: anim_prefix_def base_path_of_def os_sep_def os_path_join_plain)


lemma surroundings_flags:
  "surroundings w' = surroundings w \<Longrightarrow> hidden_flags (objects w') = hidden_flags (objects w)"
  by (simp add: surroundings_def visibility_flags)

lemma run_animation_ok:
  assumes sp: "objects w ''ShadowPlane'' \<noteq> None"
    and tr: "has_track ''rig'' ''reset'' w" "has_track ''rig'' a w" "has_track ''rig'' ''Rotation'' w"
  shows "\<exists>w' obs qs.
     run_animation n base (Some [''rig'']) [] s a w = (None, w') \<and>
     log w' = log w @ qs @
       concat (map (frame_events obs (anim_prefix base n a)) (range_up s (frame_end w + 1) 2)) \<and>
     renders qs = [] \<and>
     hidden_flags obs = (hidden_flags (objects w))(''ShadowPlane'' \<mapsto> (False, False)) \<and>
     set (unmuted_names ''rig'' obs) \<subseteq> {a, ''Rotation''}"
proof -
  let ?pfx = "anim_prefix base n a"
  let ?e0 = "[SetHideRender ''ShadowPlane'' False, SetHideViewport ''ShadowPlane'' False]"
  define w0 where "w0 = emit ?e0 (set_hidden ''ShadowPlane'' False w)"
  have h: "hide_objects [''ShadowPlane''] False w = (None, w0)"
    unfolding w0_def by (rule hide_objects_single [OF sp])
  have l0: "log w0 = log w @ ?e0" by (simp add: w0_def emit_simps)
  have f0: "hidden_flags (objects w0) = (hidden_flags (objects w))(''ShadowPlane'' \<mapsto> (False, False))"
    using sp by (simp add: w0_def flags_set_hidden)
  have t0: "has_track x m w0 = has_track x m w" for x m by (simp add: w0_def)
  have fe0: "frame_end w0 = frame_end w" by (simp add: w0_def emit_simps)
  \<comment> \<open>reset_tracks\<close>
  define w1 where "w1 = snd (reset_tracks [''rig''] w0)"
  have "fst (reset_tracks [''rig''] w0) = None"
    by (rule reset_tracks_returns) (simp add: t0 tr)
  then have rt: "reset_tracks [''rig''] w0 = (None, w1)" by (simp add: w1_def prod_eq_iff)
  from quietD [OF quiet_reset_tracks, of "[''rig'']" w0] rt
  obtain e1 where e1: "log w1 = log w0 @ e1" "silent e1" by auto
  note re = reset_tracks_effect [OF rt]
  have t1: "has_track x m w1 = has_track x m w" for x m
    using re t0 [of x m] by (simp add: has_track_def)
  have s1: "surroundings w1 = surroundings w0" by (rule reset_tracks_surroundings [OF rt])
  from re have "settled ''rig'' w1" by simp
  then have u1: "unmuted_names ''rig'' (objects w1) = []"
    by (simp add: settled_def all_muted_unmuted)
  \<comment> \<open>mute_and_unmute\<close>
  define w2 where "w2 = snd (mute_and_unmute [''rig''] [PyList []] [PyList [a, ''Rotation'']] w1)"
  have "fst (mute_and_unmute [''rig''] [PyList []] [PyList [a, ''Rotation'']] w1) = None"
    by (rule unmute_pair_returns) (simp_all add: t1 tr)
  then have mu: "mute_and_unmute [''rig''] [PyList []] [PyList [a, ''Rotation'']] w1 = (None, w2)"
    by (simp add: w2_def prod_eq_iff)
  from quietD [OF quiet_mute_and_unmute, of "[''rig'']" "[PyList []]" "[PyList [a, ''Rotation'']]" w1] mu
  obtain e2 where e2: "log w2 = log w1 @ e2" "silent e2" by auto
  from mu have en: "mute_and_unmute_entry (''rig'', PyList [], PyList [a, ''Rotation'']) w1 = (None, w2)"
    by (simp add: mute_and_unmute_def for_each_single del: for_each.simps)
  note me = mute_and_unmute_entry_effect [OF en]
  have u2: "set (unmuted_names ''rig'' (objects w2)) \<subseteq> {a, ''Rotation''}"
    using me(6) u1 by (auto simp: arg_names_def)
  have s2: "surroundings w2 = surroundings w0" using me(5) s1 by simp
  have f2: "hidden_flags (objects w2) = (hidden_flags (objects w))(''ShadowPlane'' \<mapsto> (False, False))"
    using surroundings_flags [OF s2] f0 by simp
  \<comment> \<open>the output directory and the frame loop\<close>
  let ?d = "os_path_join (base @ n) a"
  define w3 where "w3 = snd (ensure_dir ?d w2)"
  from ensure_dir_effect(4) [of ?d w2] obtain e3 where
    e3: "log w3 = log w2 @ e3" "renders e3 = []" unfolding w3_def by blast
  have ed: "ensure_dir ?d w2 = (None, w3)"
    using ensure_dir_effect(1) [of ?d w2] by (simp add: prod_eq_iff w3_def)
  have o3: "objects w3 = objects w2" by (simp add: w3_def ensure_dir_effect(2))
  let ?fs = "range_up s (frame_end w + 1) 2"
  define w4 where "w4 = snd (write_animations2 ?pfx 2 s (frame_end w) w3)"
  have wa: "write_animations2 ?pfx 2 s (frame_end w) w3 = (None, w4)"
    using write_animations2_up(1) [of 2 ?pfx s "frame_end w" w3]
    by (simp add: prod_eq_iff w4_def)
  have l4: "log w4 = log w3 @ concat (map (frame_events (objects w2) ?pfx) ?fs)"
    using write_animations2_up(3) [of 2 ?pfx s "frame_end w" w3]
    by (simp add: w4_def o3)
  have run: "run_animation n base (Some [''rig'']) [] s a w = (None, w4)"
    using h rt mu ed wa by (simp add: run_animation_Some seq_def)
  let ?qs = "?e0 @ e1 @ e2 @ e3"
  have "log w4 = log w @ ?qs @ concat (map (frame_events (objects w2) ?pfx) ?fs)"
    by (simp add: l4 e3 e2 e1 l0)
  moreover have "renders ?qs = []"
    using e1(2) e2(2) e3(2) by (simp add: renders_append silent_renders)
  ultimately show ?thesis using run f2 u2 by blast
qed

lemma for_each_Cons_ok:
  "body x w = (None, w1) \<Longrightarrow> for_each body (x # xs) w = for_each body xs w1"
  by simp

lemma case_selector_squirrel:
  "case_selector ''squirrel'' w = (Some [''rig''], emit [SetFrameEnd 160] (w\<lparr>frame_end := 160\<rparr>))"
  by (simp add: case_selector_def)

lemma run_case_squirrel:
  assumes "objects w ''visibleground'' \<noteq> None" "objects w ''ShadowPlane'' \<noteq> None"
    and "has_track ''rig'' ''reset'' w" "has_track ''rig'' ''Idle1'' w"
    and "has_track ''rig'' ''Rotation'' w"
  shows "\<exists>obs rest.
     renders (new_events w (snd (run_case ''squirrel'' w))) =
       map (\<lambda>f. (f, frame_filename (anim_prefix (base_path_of w) ''squirrel'' ''Idle1'') f, obs))
         (range_up 1 (160 + 1) 2) @ rest \<and>
     hidden_flags obs ''visibleground'' = Some (True, True) \<and>
     hidden_flags obs ''ShadowPlane'' = Some (False, False) \<and>
     set (unmuted_names ''rig'' obs) \<subseteq> {''Idle1'', ''Rotation''} \<and>
     (\<forall>r \<in> set rest. render_of (anim_prefix (base_path_of w) ''squirrel'' ''Walk'') ''Walk'' r)"
proof -
  let ?base = "base_path_of w"
  define w1 where "w1 = snd (before_dispatch w)"
  have bd: "before_dispatch w = (None, w1)"
    using before_dispatch_returns [OF assms(1,2)] by (simp add: w1_def prod_eq_iff)
  note b = before_dispatch_None [OF bd]
  from b(5) obtain e0 where e0: "log w1 = log w @ e0" "silent e0" by blast
  define w2 where "w2 = emit [SetFrameEnd 160] (w1\<lparr>frame_end := 160\<rparr>)"
  have cs: "case_selector ''squirrel'' w1 = (Some [''rig''], w2)"
    by (simp add: case_selector_squirrel w2_def)
  have l2: "log w2 = log w1 @ [SetFrameEnd 160]" by (simp add: w2_def emit_simps)
  have o2: "objects w2 = objects w1" by (simp add: w2_def emit_simps)
  have f2: "hidden_flags (objects w2) = hidden_flags (objects w1)"
    by (simp add: o2)
  have fe2: "frame_end w2 = 160" by (simp add: w2_def emit_simps)
  have t2: "has_track x m w2 = has_track x m w" for x m
    by (simp add: w2_def b(3))
  have sp2: "objects w2 ''ShadowPlane'' \<noteq> None"
    using b(2) by (auto simp: o2 hidden_flags_def)
  from run_animation_ok [of w2 "''Idle1''" "''squirrel''" ?base 1] sp2 assms(3,4,5)
  obtain w3 obs qs where
    ra: "run_animation ''squirrel'' ?base (Some [''rig'']) [] 1 ''Idle1'' w2 = (None, w3)" and
    l3: "log w3 = log w2 @ qs @
       concat (map (frame_events obs (anim_prefix ?base ''squirrel'' ''Idle1'')) (range_up 1 (160 + 1) 2))" and
    qs: "renders qs = []" and
    fo: "hidden_flags obs = (hidden_flags (objects w2))(''ShadowPlane'' \<mapsto> (False, False))" and
    uo: "set (unmuted_names ''rig'' obs) \<subseteq> {''Idle1'', ''Rotation''}"
    unfolding t2 fe2 by blast
  let ?walk = "run_animation ''squirrel'' ?base (Some [''rig'']) [] 1 ''Walk'' w3"
  from run_animation_renders [of "''squirrel''" ?base 1 "''Walk''" w3]
  obtain e4 where
    e4: "log (snd ?walk) = log w3 @ e4"
        "\<forall>r \<in> set (renders e4). render_of (anim_prefix ?base ''squirrel'' ''Walk'') ''Walk'' r"
    by blast
  have loop: "for_each (run_animation ''squirrel'' ?base (Some [''rig'']) [] 1) animation_list w2 = ?walk"
    unfolding animation_list_def
    using for_each_Cons_ok [of "run_animation ''squirrel'' ?base (Some [''rig'']) [] 1"
        "''Idle1''" w2 w3 "[''Walk'']"] ra
    by (simp only: for_each_single)
  have rc: "run_case ''squirrel'' w = ?walk"
    by (simp add: run_case_unfold bd cs loop)
  let ?idle = "concat (map (frame_events obs (anim_prefix ?base ''squirrel'' ''Idle1'')) (range_up 1 (160 + 1) 2))"
  have "log (snd (run_case ''squirrel'' w)) = log w @ (e0 @ [SetFrameEnd 160] @ qs @ ?idle @ e4)"
    by (simp only: rc e4(1) l3 l2 e0(1) append_assoc)
  from new_events_append [OF this]
  have "renders (new_events w (snd (run_case ''squirrel'' w))) =
      map (\<lambda>f. (f, frame_filename (anim_prefix ?base ''squirrel'' ''Idle1'') f, obs))
        (range_up 1 (160 + 1) 2) @ renders e4"
    using e0(2) qs by (simp add: renders_append silent_renders renders_frame_events)
  moreover have "hidden_flags obs ''visibleground'' = Some (True, True)"
    using b(1) by (simp add: fo f2)
  moreover have "hidden_flags obs ''ShadowPlane'' = Some (False, False)"
    by (simp add: fo)
  ultimately show ?thesis using uo e4(2) by blast
qed

lemma anim_prefix_Walk:
  "anim_prefix (base_path_of w) ''squirrel'' ''Walk'' =
     os_path_join (blend_dir w) ''renders'' @ ''/squirrel/Walk/Walk''"
  by (simp add: anim_prefix_def base_path_of_def os_sep_def os_path_join_plain)

lemma demo_scene:
  "objects demo_world ''visibleground'' \<noteq> None"
  "objects demo_world ''ShadowPlane'' \<noteq> None"
  "has_track ''rig'' ''reset'' demo_world"
  "has_track ''rig'' ''Idle1'' demo_world"
  "has_track ''rig'' ''Rotation'' demo_world"
  by (simp_all add: has_track_def track_names_def demo_rig_tracks) (simp_all add: demo_world_def)





section \<open>The claims\<close>



text \<open>
  C3 (as amended). The claim lists six steps per object; the loop body performs eight.
  For every object processed by \<open>reset_tracks\<close>, in a call that returns, the writes
  to the object's tracks and to the scene's current frame are exactly: set the frame
  to 1, mute all tracks, unmute \<^verbatim>\<open>reset\<close>, mute \<^verbatim>\<open>reset\<close>, mute all tracks, unmute
  \<^verbatim>\<open>reset\<close>, set the frame to 1, mute \<^verbatim>\<open>reset\<close>, in that order, object after object,
  with nothing else in between.
\<close>

theorem reset_tracks_sequence:
  assumes "fst (reset_tracks obj w) = None"
  shows "new_events w (snd (reset_tracks obj w)) =
           concat (map (\<lambda>x. reset_events x (track_names x w)) obj)"
proof -
  from assms have "reset_tracks obj w = (None, snd (reset_tracks obj w))"
    by (simp add: prod_eq_iff)
  from reset_tracks_effect [OF this] show ?thesis
    by (simp add: new_events_append)
qed

text \<open>
  C5. For a non-empty list of object names and any starting state, when
  \<open>reset_tracks\<close> returns, the \<^verbatim>\<open>reset\<close> track of every processed object is muted
  and the scene's current frame is 1. (The call returns exactly when every name
  resolves to an object with animation data and a track named \<^verbatim>\<open>reset\<close>; one
  direction is \<open>reset_tracks_returns\<close>.)
\<close>

theorem reset_tracks_leaves_reset_muted:
  assumes "obj \<noteq> []" and "fst (reset_tracks obj w) = None"
  shows "frame_current (snd (reset_tracks obj w)) = 1 \<and>
         (\<forall>x \<in> set obj. track_state x ''reset'' (snd (reset_tracks obj w)) = Some True)"
proof -
  from assms(2) have "reset_tracks obj w = (None, snd (reset_tracks obj w))"
    by (simp add: prod_eq_iff)
  note e = reset_tracks_effect [OF this]
  have "track_state x ''reset'' w' = Some True" if "settled x w'" for x w'
    using that
    by (auto simp: settled_def all_muted_def has_track_def track_names_def track_state_def
        track_mute_all_muted split: sum.splits)
  with e assms(1) show ?thesis by blast
qed

text \<open>
  C9. When \<open>reset_tracks\<close> returns, every track of every processed object is muted,
  whatever the mute flags were before.
\<close>

theorem reset_tracks_mutes_every_track:
  assumes "fst (reset_tracks obj w) = None"
  shows "\<forall>x \<in> set obj. all_muted x (snd (reset_tracks obj w))"
proof -
  from assms have "reset_tracks obj w = (None, snd (reset_tracks obj w))"
    by (simp add: prod_eq_iff)
  from reset_tracks_effect [OF this] show ?thesis
    by (simp add: settled_def)
qed

text \<open>
  C3 as stated fails on the demo scene: the events of \<open>reset_tracks ["rig"]\<close> are not
  the six-step sequence of the specification.
\<close>

theorem reset_tracks_sequence_counterexample:
  "fst (reset_tracks [''rig''] demo_world) = None \<and>
   new_events demo_world (snd (reset_tracks [''rig''] demo_world)) \<noteq>
     spec_reset_events ''rig'' (track_names ''rig'' demo_world)"
proof -
  have "reset_tracks [''rig''] demo_world = (None, snd (reset_tracks [''rig''] demo_world))"
    using demo_reset_returns by (simp add: prod_eq_iff)
  from reset_tracks_effect [OF this]
  have "new_events demo_world (snd (reset_tracks [''rig''] demo_world)) =
      reset_events ''rig'' (track_names ''rig'' demo_world)"
    by (simp add: new_events_append)
  then show ?thesis using demo_reset_returns
    by (simp add: reset_events_def spec_reset_events_def track_names_def demo_rig_tracks)
qed

text \<open>Instances on the demo scene.\<close>

theorem reset_tracks_sequence_witness:
  "fst (reset_tracks [''rig''] demo_world) = None \<and>
   new_events demo_world (snd (reset_tracks [''rig''] demo_world)) =
     [FrameSet 1,
      SetMute ''rig'' ''Idle1'' True, SetMute ''rig'' ''reset'' True,
      SetMute ''rig'' ''Walk'' True, SetMute ''rig'' ''Rotation'' True,
      SetMute ''rig'' ''reset'' False, SetMute ''rig'' ''reset'' True,
      SetMute ''rig'' ''Idle1'' True, SetMute ''rig'' ''reset'' True,
      SetMute ''rig'' ''Walk'' True, SetMute ''rig'' ''Rotation'' True,
      SetMute ''rig'' ''reset'' False, FrameSet 1, SetMute ''rig'' ''reset'' True]"
  using reset_tracks_sequence [OF demo_reset_returns] demo_reset_returns
  by (simp add: reset_events_def track_names_def demo_rig_tracks)

theorem reset_tracks_leaves_reset_muted_witness:
  "[''rig''] \<noteq> [] \<and> fst (reset_tracks [''rig''] demo_world) = None \<and>
   frame_current (snd (reset_tracks [''rig''] demo_world)) = 1 \<and>
   track_state ''rig'' ''reset'' (snd (reset_tracks [''rig''] demo_world)) = Some True"
  using reset_tracks_leaves_reset_muted [OF _ demo_reset_returns] demo_reset_returns
  by simp

theorem reset_tracks_mutes_every_track_witness:
  "fst (reset_tracks [''rig''] demo_world) = None \<and>
   all_muted ''rig'' (snd (reset_tracks [''rig''] demo_world))"
  using reset_tracks_mutes_every_track [OF demo_reset_returns] demo_reset_returns
  by simp
text \<open>
  C8. For every list of object names and every starting state, running
  \<open>hide_objects names True\<close> a second time leaves the object registry, and so both
  hidden flags of every named object, exactly as the first run left it; the second
  run also returns or raises as the first did.
\<close>

theorem hide_objects_idempotent:
  "objects (snd (hide_objects names True (snd (hide_objects names True w)))) =
     objects (snd (hide_objects names True w)) \<and>
   fst (hide_objects names True (snd (hide_objects names True w))) =
     fst (hide_objects names True w)"
proof -
  let ?w1 = "snd (hide_objects names True w)"
  have d: "dom (objects ?w1) = dom (objects w)" by (rule hide_objects_dom)
  have "objects (snd (hide_objects names True ?w1)) = objects ?w1"
    unfolding hide_objects_objects [of names True ?w1] d
    unfolding hide_objects_objects [of names True w]
    by (rule ext) (simp add: option.map_comp comp_def hidden_idem)
  moreover have "fst (hide_objects names True ?w1) = fst (hide_objects names True w)"
    by (simp add: hide_objects_error d)
  ultimately show ?thesis by simp
qed

text \<open>
  C10 (as amended). In a call of \<open>mute_and_unmute\<close> that returns, the events are, entry
  after entry of the zip, the mute pass over the entry's mute list followed by the
  unmute pass over its unmute list; and a track name that is in both lists of an
  entry for object \<open>x\<close> is unmuted on return, provided no later entry names \<open>x\<close>
  again.
\<close>

theorem mute_and_unmute_unmute_wins:
  assumes ret: "fst (mute_and_unmute objs tracks_to_mute tracks_to_unmute w) = None"
    and i: "i < length (zip3 objs tracks_to_mute tracks_to_unmute)"
    and ei: "zip3 objs tracks_to_mute tracks_to_unmute ! i = (x, m, u)"
    and ym: "y \<in> set (arg_names m)" and yu: "y \<in> set (arg_names u)"
    and later: "x \<notin> fst ` set (drop (Suc i) (zip3 objs tracks_to_mute tracks_to_unmute))"
  shows "new_events w (snd (mute_and_unmute objs tracks_to_mute tracks_to_unmute w)) =
           concat (map entry_events (zip3 objs tracks_to_mute tracks_to_unmute)) \<and>
         track_state x y (snd (mute_and_unmute objs tracks_to_mute tracks_to_unmute w)) =
           Some False"
proof -
  let ?w' = "snd (mute_and_unmute objs tracks_to_mute tracks_to_unmute w)"
  define es where "es = zip3 objs tracks_to_mute tracks_to_unmute"
  define pre where "pre = take i es"
  define post where "post = drop (Suc i) es"
  from ret have run: "for_each mute_and_unmute_entry es w = (None, ?w')"
    by (simp add: mute_and_unmute_def prod_eq_iff es_def)
  have split: "es = pre @ (x, m, u) # post"
    using id_take_nth_drop [of i es] i ei by (simp add: es_def pre_def post_def)
  from run have "for_each mute_and_unmute_entry (pre @ (x, m, u) # post) w = (None, ?w')"
    by (simp only: split [symmetric])
  then obtain w1 w2 where
    b: "mute_and_unmute_entry (x, m, u) w1 = (None, w2)" and
    rest: "for_each mute_and_unmute_entry post w2 = (None, ?w')"
    unfolding for_each_append_None for_each_Cons_None by blast
  from mute_and_unmute_entry_effect(2) [OF b] yu
  have "track_state x y w2 = Some False" by blast
  moreover from later have "x \<notin> fst ` set post" by (simp add: post_def es_def)
  with entries_effect [OF rest]
  have "get_tracks x ?w' = get_tracks x w2" by blast
  ultimately have "track_state x y ?w' = Some False"
    by (simp add: track_state_def)
  moreover from entries_effect [OF run]
  have "new_events w ?w' = concat (map entry_events es)"
    by (simp add: new_events_append)
  ultimately show ?thesis by (simp add: es_def)
qed

text \<open>
  C10 as stated fails when an object is named twice: the second entry mutes
  \<^verbatim>\<open>Walk\<close> again and unmutes nothing, so the track that is in both lists of the first
  entry is muted on return.
\<close>

theorem mute_and_unmute_unmute_wins_counterexample:
  "fst (mute_and_unmute [''rig'', ''rig''] [PyList [''Walk''], PyList [''Walk'']]
          [PyList [''Walk''], PyList []] demo_world) = None \<and>
   track_state ''rig'' ''Walk''
     (snd (mute_and_unmute [''rig'', ''rig''] [PyList [''Walk''], PyList [''Walk'']]
          [PyList [''Walk''], PyList []] demo_world)) = Some True"
  by (simp add: mute_and_unmute_def mute_and_unmute_entry_def set_each_def seq_def
      set_track_mute_def get_tracks_def put_tracks_def emit_def demo_world_def track_state_def)

text \<open>An instance on the demo scene.\<close>

theorem mute_and_unmute_unmute_wins_witness:
  "fst (mute_and_unmute [''rig''] [PyList [''Walk'', ''Idle1'']] [PyList [''Walk'']] demo_world) = None \<and>
   new_events demo_world
     (snd (mute_and_unmute [''rig''] [PyList [''Walk'', ''Idle1'']] [PyList [''Walk'']] demo_world)) =
     [SetMute ''rig'' ''Walk'' True, SetMute ''rig'' ''Idle1'' True, SetMute ''rig'' ''Walk'' False] \<and>
   track_state ''rig'' ''Walk''
     (snd (mute_and_unmute [''rig''] [PyList [''Walk'', ''Idle1'']] [PyList [''Walk'']] demo_world)) =
     Some False"
proof -
  have r: "fst (mute_and_unmute [''rig''] [PyList [''Walk'', ''Idle1'']] [PyList [''Walk'']] demo_world) = None"
    by (simp add: mute_and_unmute_def mute_and_unmute_entry_def set_each_def seq_def
      set_track_mute_def get_tracks_def put_tracks_def emit_def demo_world_def)
  from mute_and_unmute_unmute_wins [OF r, of 0 "''rig''" "PyList [''Walk'', ''Idle1'']"
      "PyList [''Walk'']" "''Walk''"] r
  show ?thesis by (simp add: arg_names_def entry_events_def)
qed

text \<open>
  C6 (as amended). Within one animation task with step at least 1, two frames
  \<open>f1 < f2\<close> that are in \<open>[start, end]\<close>, congruent to \<open>start\<close> modulo the step, at
  least 0 and at most 999 are both sampled by the frame loop, and the file name
  emitted for \<open>f1\<close> is distinct from and sorts before the one emitted for \<open>f2\<close>.
\<close>

theorem frame_filenames_ordered:
  assumes "1 \<le> step"
    and "start_frame \<le> f1" and "f2 \<le> end_frame"
    and "(f1 - start_frame) mod step = 0" and "(f2 - start_frame) mod step = 0"
    and "0 \<le> f1" and "f1 < f2" and "f2 \<le> 999"
  shows "f1 \<in> set (range_up start_frame (end_frame + 1) step) \<and>
         f2 \<in> set (range_up start_frame (end_frame + 1) step) \<and>
         frame_filename output_path f1 \<noteq> frame_filename output_path f2 \<and>
         str_less (frame_filename output_path f1) (frame_filename output_path f2)"
proof -
  from assms(1) have st: "0 < step" by simp
  have "f1 \<in> set (range_up start_frame (end_frame + 1) step)"
    using assms by (simp add: range_up_member [OF st])
  moreover have "f2 \<in> set (range_up start_frame (end_frame + 1) step)"
    using assms by (simp add: range_up_member [OF st])
  moreover have l: "str_less (frame_filename output_path f1) (frame_filename output_path f2)"
    using assms by (intro frame_filename_less)
  moreover from l have "frame_filename output_path f1 \<noteq> frame_filename output_path f2"
    using str_less_irrefl by metis
  ultimately show ?thesis by simp
qed

text \<open>
  C6 as stated fails below zero: \<^verbatim>\<open>zfill\<close> pads after the sign, so frame \<open>-5\<close> is written
  \<^verbatim>\<open>-05\<close> and sorts after \<^verbatim>\<open>-03\<close>.
\<close>

theorem frame_filenames_ordered_counterexample:
  "(-5::int) < -3 \<and> (-3::int) \<le> 999 \<and>
   -5 \<in> set (range_up (-5) (-3 + 1) 2) \<and> -3 \<in> set (range_up (-5) (-3 + 1) 2) \<and>
   frame_filename ''out'' (-5) = ''out_-05.png'' \<and>
   frame_filename ''out'' (-3) = ''out_-03.png'' \<and>
   \<not> str_less (frame_filename ''out'' (-5)) (frame_filename ''out'' (-3))"
proof -
  have r: "range_up (-5) (-3 + 1) 2 = [-5, -3]"
    by (simp add: range_up_Cons range_up_Nil)
  show ?thesis
    unfolding r
    by (simp add: frame_filename_def zfill_def str_def str_nat_small digit_char_vals)
qed

text \<open>An instance: frames 7 and 159 of the scenario of the specification.\<close>

theorem frame_filenames_ordered_witness:
  "7 \<in> set (range_up 1 (160 + 1) 2) \<and> 159 \<in> set (range_up 1 (160 + 1) 2) \<and>
   frame_filename ''Idle1'' 7 \<noteq> frame_filename ''Idle1'' 159 \<and>
   str_less (frame_filename ''Idle1'' 7) (frame_filename ''Idle1'' 159)"
  using frame_filenames_ordered [of 2 1 7 159 160 "''Idle1''"] by simp

text \<open>
  C4. For every subject other than \<^verbatim>\<open>squirrel\<close>, the dispatch of \<open>run_case\<close> prints the
  diagnostic and changes nothing else: no hidden flag, no mute flag, no frame
  setting, and \<^verbatim>\<open>objects\<close> stays unbound. In the run as a whole no render happens
  and no directory is created. When the two statements before the dispatch
  returned, the run ends with \<^verbatim>\<open>UnboundLocalError\<close> in the first iteration of the
  animation loop, in the state it had at the dispatch: the log alone has grown, by
  the diagnostic and by the loop's rewriting of the hidden flags of
  \<^verbatim>\<open>ShadowPlane\<close> with the values they already had. When one of the two statements
  raised, the dispatch is not reached.
\<close>

theorem unsupported_subject:
  assumes "animal_name \<noteq> ''squirrel''"
  shows "case_selector animal_name w =
           (None, emit [Print (''Animal '' @ animal_name @ '' not supported!'')] w) \<and>
         renders (new_events w (snd (run_case animal_name w))) = [] \<and>
         (\<forall>p. MakeDirs p \<notin> set (new_events w (snd (run_case animal_name w)))) \<and>
         (fst (before_dispatch w) = None \<longrightarrow>
            run_case animal_name w =
              (Some UnboundLocalError,
               emit [Print (''Animal '' @ animal_name @ '' not supported!''),
                     SetHideRender ''ShadowPlane'' False, SetHideViewport ''ShadowPlane'' False]
                 (snd (before_dispatch w)))) \<and>
         (fst (before_dispatch w) \<noteq> None \<longrightarrow> run_case animal_name w = before_dispatch w)"
proof -
  let ?d = "Print (''Animal '' @ animal_name @ '' not supported!'')"
  let ?w' = "snd (run_case animal_name w)"
  have cs: "case_selector animal_name w = (None, emit [?d] w)"
    using assms by (simp add: case_selector_def)
  obtain r w1 where bd: "before_dispatch w = (r, w1)" by force
  from quietD [OF quiet_before_dispatch, of w] bd obtain e0 where
    e0: "log w1 = log w @ e0" "silent e0" by auto
  have ok: "run_case animal_name w =
      (Some UnboundLocalError,
       emit [?d, SetHideRender ''ShadowPlane'' False, SetHideViewport ''ShadowPlane'' False]
         (snd (before_dispatch w)))"
    if "fst (before_dispatch w) = None"
    using that bd run_case_unsupported [OF assms, of w w1] by simp
  have raised: "run_case animal_name w = before_dispatch w" if "fst (before_dispatch w) \<noteq> None"
    using that bd by (auto simp: run_case_unfold)
  have s: "silent (new_events w ?w')"
  proof (cases r)
    case (Some e)
    with bd have "log ?w' = log w @ e0" by (simp add: raised e0)
    from new_events_append [OF this] e0(2) show ?thesis by simp
  next
    case None
    let ?evs = "e0 @ [?d, SetHideRender ''ShadowPlane'' False, SetHideViewport ''ShadowPlane'' False]"
    from None bd have "log ?w' = log w @ ?evs"
      by (simp add: ok emit_simps e0)
    from new_events_append [OF this] have ne: "new_events w ?w' = ?evs" .
    have "silent ?evs" using e0(2) by (simp add: silent_append)
    then show ?thesis unfolding ne .
  qed
  have A: "renders (new_events w ?w') = []" by (rule silent_renders [OF s])
  have B: "\<forall>p. MakeDirs p \<notin> set (new_events w ?w')"
    using silent_no_makedirs [OF s] by blast
  from cs A B ok raised show ?thesis by blast
qed

text \<open>An instance: the subject \<^verbatim>\<open>cat\<close> on the demo scene.\<close>

theorem unsupported_subject_witness:
  "''cat'' \<noteq> ''squirrel'' \<and>
   case_selector ''cat'' demo_world =
     (None, emit [Print ''Animal cat not supported!''] demo_world) \<and>
   renders (new_events demo_world (snd (run_case ''cat'' demo_world))) = [] \<and>
   fst (before_dispatch demo_world) = None \<and>
   fst (run_case ''cat'' demo_world) = Some UnboundLocalError"
proof -
  have b: "fst (before_dispatch demo_world) = None"
    by (rule before_dispatch_returns) (simp_all add: demo_world_def)
  have n: "''cat'' \<noteq> ''squirrel''" by simp
  note t = unsupported_subject [OF n, of demo_world]
  from t have c: "case_selector ''cat'' demo_world =
      (None, emit [Print (''Animal '' @ ''cat'' @ '' not supported!'')] demo_world)"
    by (rule conjunct1)
  from t have r: "renders (new_events demo_world (snd (run_case ''cat'' demo_world))) = []"
    by blast
  from t b have "run_case ''cat'' demo_world =
      (Some UnboundLocalError,
       emit [Print (''Animal '' @ ''cat'' @ '' not supported!''),
             SetHideRender ''ShadowPlane'' False, SetHideViewport ''ShadowPlane'' False]
         (snd (before_dispatch demo_world)))"
    by blast
  then have e: "fst (run_case ''cat'' demo_world) = Some UnboundLocalError" by simp
  from c have c': "case_selector ''cat'' demo_world =
      (None, emit [Print ''Animal cat not supported!''] demo_world)" by simp
  from n c' r b e show ?thesis by blast
qed

text \<open>
  C1. On a scene that has the objects \<^verbatim>\<open>visibleground\<close> and \<^verbatim>\<open>ShadowPlane\<close> and a
  \<^verbatim>\<open>rig\<close> with tracks \<^verbatim>\<open>reset\<close>, \<^verbatim>\<open>Idle1\<close> and \<^verbatim>\<open>Rotation\<close>, the run
  \<open>run_case "squirrel"\<close> (which sets the end of the frame range to 160 and uses step 2
  from frame 1) renders at least 80 times. The first 80 renders are those of
  \<^verbatim>\<open>Idle1\<close>: their frames are 1, 3, ..., 159 in this order, their paths are
  \<^verbatim>\<open>renders/squirrel/Idle1/Idle1_<frame:03d>.png\<close> under the directory of the scene file,
  and at each of them \<^verbatim>\<open>visibleground\<close> has both hidden flags set and \<^verbatim>\<open>ShadowPlane\<close>
  has both cleared. Every later render is written under the prefix of \<^verbatim>\<open>Walk\<close>, so
  \<^verbatim>\<open>Idle1\<close> has exactly these 80.
\<close>

theorem squirrel_idle1_renders:
  assumes "objects w ''visibleground'' \<noteq> None" and "objects w ''ShadowPlane'' \<noteq> None"
    and "has_track ''rig'' ''reset'' w" and "has_track ''rig'' ''Idle1'' w"
    and "has_track ''rig'' ''Rotation'' w"
  shows "80 \<le> length (run_renders ''squirrel'' w) \<and>
    map fst (take 80 (run_renders ''squirrel'' w)) = map (\<lambda>k. 2 * int k + 1) [0..<80] \<and>
    map (\<lambda>r. fst (snd r)) (take 80 (run_renders ''squirrel'' w)) =
      map (\<lambda>k. os_path_join (blend_dir w) ''renders'' @ ''/squirrel/Idle1/Idle1_'' @
                 zfill 3 (str (2 * int k + 1)) @ ''.png'') [0..<80] \<and>
    (\<forall>r \<in> set (take 80 (run_renders ''squirrel'' w)).
       hidden_flags (snd (snd r)) ''visibleground'' = Some (True, True) \<and>
       hidden_flags (snd (snd r)) ''ShadowPlane'' = Some (False, False)) \<and>
    (\<forall>r \<in> set (drop 80 (run_renders ''squirrel'' w)).
       fst (snd r) =
         frame_filename (os_path_join (blend_dir w) ''renders'' @ ''/squirrel/Walk/Walk'') (fst r))"
proof -
  let ?pfx = "os_path_join (blend_dir w) ''renders'' @ ''/squirrel/Idle1/Idle1''"
  from run_case_squirrel [OF assms] obtain obs rest where
    R: "run_renders ''squirrel'' w =
          map (\<lambda>f. (f, frame_filename ?pfx f, obs)) (map (\<lambda>k. 2 * int k + 1) [0..<80]) @ rest" and
    vg: "hidden_flags obs ''visibleground'' = Some (True, True)" and
    sp: "hidden_flags obs ''ShadowPlane'' = Some (False, False)" and
    rest: "\<forall>r \<in> set rest. render_of (os_path_join (blend_dir w) ''renders'' @ ''/squirrel/Walk/Walk'') ''Walk'' r"
    unfolding run_renders_def anim_prefix_Idle1 anim_prefix_Walk scenario_frames by blast
  define idle where
    "idle = map (\<lambda>f. (f, frame_filename ?pfx f, obs)) (map (\<lambda>k. 2 * int k + 1) [0..<80])"
  have len: "length idle = 80" by (simp add: idle_def)
  have R': "run_renders ''squirrel'' w = idle @ rest" by (simp add: R idle_def)
  have tk: "take 80 (run_renders ''squirrel'' w) = idle" by (simp add: R' len)
  have dr: "drop 80 (run_renders ''squirrel'' w) = rest" by (simp add: R' len)
  have "80 \<le> length (run_renders ''squirrel'' w)" by (simp add: R' len)
  moreover have "map fst idle = map (\<lambda>k. 2 * int k + 1) [0..<80]"
    by (simp add: idle_def comp_def)
  moreover have "map (\<lambda>r. fst (snd r)) idle =
      map (\<lambda>k. os_path_join (blend_dir w) ''renders'' @ ''/squirrel/Idle1/Idle1_'' @
                 zfill 3 (str (2 * int k + 1)) @ ''.png'') [0..<80]"
    by (simp add: idle_def comp_def frame_filename_def)
  moreover have "\<forall>r \<in> set idle.
       hidden_flags (snd (snd r)) ''visibleground'' = Some (True, True) \<and>
       hidden_flags (snd (snd r)) ''ShadowPlane'' = Some (False, False)"
    using vg sp by (auto simp: idle_def)
  moreover have "\<forall>r \<in> set rest.
       fst (snd r) =
         frame_filename (os_path_join (blend_dir w) ''renders'' @ ''/squirrel/Walk/Walk'') (fst r)"
    using rest by (simp add: render_of_def)
  ultimately show ?thesis unfolding tk dr by blast
qed

text \<open>An instance on the demo scene, with the first and the last path written out.\<close>

theorem squirrel_idle1_renders_witness:
  "80 \<le> length (run_renders ''squirrel'' demo_world) \<and>
   fst (run_renders ''squirrel'' demo_world ! 0) = 1 \<and>
   fst (snd (run_renders ''squirrel'' demo_world ! 0)) =
     ''/home/user/squirrel/renders/squirrel/Idle1/Idle1_001.png'' \<and>
   fst (run_renders ''squirrel'' demo_world ! 79) = 159 \<and>
   fst (snd (run_renders ''squirrel'' demo_world ! 79)) =
     ''/home/user/squirrel/renders/squirrel/Idle1/Idle1_159.png'' \<and>
   hidden_flags (snd (snd (run_renders ''squirrel'' demo_world ! 79))) ''visibleground'' =
     Some (True, True) \<and>
   hidden_flags (snd (snd (run_renders ''squirrel'' demo_world ! 79))) ''ShadowPlane'' =
     Some (False, False)"
proof -
  let ?R = "run_renders ''squirrel'' demo_world"
  note t = squirrel_idle1_renders [OF demo_scene]
  from t have len: "80 \<le> length ?R" by blast
  from t have fr: "map fst (take 80 ?R) = map (\<lambda>k. 2 * int k + 1) [0..<80]" by blast
  from t have pa: "map (\<lambda>r. fst (snd r)) (take 80 ?R) =
      map (\<lambda>k. os_path_join (blend_dir demo_world) ''renders'' @ ''/squirrel/Idle1/Idle1_'' @
                 zfill 3 (str (2 * int k + 1)) @ ''.png'') [0..<80]" by blast
  from t have fl: "\<forall>r \<in> set (take 80 ?R).
       hidden_flags (snd (snd r)) ''visibleground'' = Some (True, True) \<and>
       hidden_flags (snd (snd r)) ''ShadowPlane'' = Some (False, False)" by blast
  have nth: "map g (take 80 ?R) ! i = g (?R ! i)" if "i < 80" for g :: "_ \<Rightarrow> 'b" and i
    using that len by simp
  have bd: "os_path_join (blend_dir demo_world) ''renders'' = ''/home/user/squirrel/renders''"
    by (simp add: os_path_join_def demo_world_def)
  have z1: "zfill 3 (str 1) = ''001''"
    using zfill_frame [of 1] by (simp add: digit_char_vals)
  have z159: "zfill 3 (str 159) = ''159''"
    using zfill_frame [of 159] by (simp add: digit_char_vals)
  have f0: "fst (?R ! 0) = 1"
    using arg_cong [OF fr, of "\<lambda>l. l ! 0"] by (simp add: nth [of 0 fst])
  have f79: "fst (?R ! 79) = 159"
    using arg_cong [OF fr, of "\<lambda>l. l ! 79"] by (simp add: nth [of 79 fst])
  have p0: "fst (snd (?R ! 0)) = ''/home/user/squirrel/renders/squirrel/Idle1/Idle1_001.png''"
    using arg_cong [OF pa, of "\<lambda>l. l ! 0"] by (simp add: nth [of 0 "\<lambda>r. fst (snd r)"] bd z1)
  have p79: "fst (snd (?R ! 79)) = ''/home/user/squirrel/renders/squirrel/Idle1/Idle1_159.png''"
    using arg_cong [OF pa, of "\<lambda>l. l ! 79"] by (simp add: nth [of 79 "\<lambda>r. fst (snd r)"] bd z159)
  have "?R ! 79 \<in> set (take 80 ?R)"
    using len by (simp add: in_set_conv_nth) (rule exI [of _ 79], simp)
  with fl have h: "hidden_flags (snd (snd (?R ! 79))) ''visibleground'' = Some (True, True)"
      "hidden_flags (snd (snd (?R ! 79))) ''ShadowPlane'' = Some (False, False)"
    by blast+
  from len f0 p0 f79 p79 h show ?thesis by blast
qed




end
